theory Spec2Isabelle
  imports Complex_Main "HOL-Library.Sublist" "HOL-Library.Multiset"
begin

section \<open>JavaScript values\<close>

text \<open>
  The preview session of \<^verbatim>\<open>preview-content-provider.ts\<close> is a TypeScript class whose
  methods run on JavaScript numbers, strings and nullable references.  A number is a
  double.  The ratio that scroll sync sends is the quotient of two integer-valued
  doubles: it is modelled by its exact rational value (the rounding of that quotient is
  not modelled), and the three non-finite results a division can give are values of
  their own.
\<close>

datatype jsnum = Number rat | PosInfinity | NegInfinity | NaN

text \<open>
  \<^verbatim>\<open>a / b\<close> for two integer-valued operands where a zero divisor is \<^verbatim>\<open>+0\<close> (the
  difference \<^verbatim>\<open>x - x\<close> of a number with itself).
\<close>

definition js_div :: "int \<Rightarrow> int \<Rightarrow> jsnum" where
  "js_div a b =
     (if b = 0 then (if a = 0 then NaN else if 0 < a then PosInfinity else NegInfinity)
      else Number (of_int a / of_int b))"

text \<open>
  Arithmetic on finite doubles.  A finite double is a rational number, and an operation
  gives the exact result rounded to the nearest double: 53 significant bits, a tie to
  the even significand.  \<open>floor_log2 x\<close> is the exponent of a positive \<open>x\<close>, the \<open>p\<close> with
  \<open>2^p \<le> x < 2^(p+1)\<close>.  The ends of the exponent range (overflow, subnormal numbers)
  are not modelled: the numbers rounded here are pixel offsets.
\<close>

fun bit_length :: "nat \<Rightarrow> nat" where
  "bit_length n = (if n = 0 then 0 else Suc (bit_length (n div 2)))"

declare bit_length.simps [simp del]

definition pow2 :: "int \<Rightarrow> rat" where
  "pow2 e = (if 0 \<le> e then 2 ^ nat e else 1 / 2 ^ nat (- e))"

definition floor_log2 :: "rat \<Rightarrow> int" where
  "floor_log2 x =
     (if 1 \<le> x then int (bit_length (nat \<lfloor>x\<rfloor>)) - 1
      else - int (bit_length (nat (\<lceil>1 / x\<rceil> - 1))))"

definition round_half_even :: "rat \<Rightarrow> int" where
  "round_half_even y =
     (let m = \<lfloor>y\<rfloor>; r = y - of_int m
      in if r < 1 / 2 then m else if 1 / 2 < r then m + 1 else if even m then m else m + 1)"

definition fl :: "rat \<Rightarrow> rat" where
  "fl q =
     (if q = 0 then 0
      else
        let e = floor_log2 \<bar>q\<bar> - 52
        in sgn q * of_int (round_half_even (\<bar>q\<bar> / pow2 e)) * pow2 e)"

datatype jsval = JUndefined | JNull | JBool bool | JNumber jsnum | JString string

text \<open>ToBoolean: the falsy values are undefined, null, false, zero, NaN and the empty string.\<close>

fun truthy :: "jsval \<Rightarrow> bool" where
  "truthy JUndefined = False"
| "truthy JNull = False"
| "truthy (JBool b) = b"
| "truthy (JNumber (Number q)) = (q \<noteq> 0)"
| "truthy (JNumber NaN) = False"
| "truthy (JNumber PosInfinity) = True"
| "truthy (JNumber NegInfinity) = True"
| "truthy (JString s) = (s \<noteq> [])"

text \<open>\<^verbatim>\<open>a || b\<close>\<close>

definition js_or :: "jsval \<Rightarrow> jsval \<Rightarrow> jsval" where
  "js_or a b = (if truthy a then a else b)"

text \<open>\<^verbatim>\<open>f.apply(this, args)\<close>: a parameter beyond the argument list is undefined.\<close>

definition arg :: "nat \<Rightarrow> jsval list \<Rightarrow> jsval" where
  "arg i args = (if i < length args then args ! i else JUndefined)"

section \<open>The session state\<close>

record config =
  scrollSync :: bool
  liveUpdate :: bool
  singlePreview :: bool
  closePreviewAutomatically :: bool
  imageFolderPath :: string

text \<open>
  The host editor, as far as the session reads it.  \<open>getPath\<close> is undefined for an
  untitled editor; \<open>buffer\<close> holds \<^verbatim>\<open>buffer.lines\<close>; the screen rows and the two row
  mappings are the host's answers (soft wraps and folds make them independent of the
  buffer's line count).
\<close>

record editor =
  getPath :: "string option"
  buffer :: "string list option"
  getLineCount :: int
  getFirstVisibleScreenRow :: int
  getLastVisibleScreenRow :: int
  getLastScreenRow :: int
  getLastBufferRow :: int
  bufferRowForScreenRow :: "int \<Rightarrow> int"
  screenRowForBufferRow :: "int \<Rightarrow> int"
  getLineHeightInPixels :: rat
  getElement :: nat

text \<open>The envelopes the session sends to the webview with \<^verbatim>\<open>postMessage\<close>.\<close>

datatype message =
    StartParsingMarkdown
  | ChangeTextEditorSelection (msg_line: int) (msg_topRatio: jsnum)
  | UpdateHTML (msg_html: string) (msg_tocHTML: string) (msg_totalLineCount: int)
      (msg_sourceUri: "string option") (msg_id: jsval) (msg_class: jsval)

text \<open>
  What a method does beyond updating the fields, in the order it does it: a message to
  the webview, a call of \<^verbatim>\<open>loadPreview\<close> (the full reload; its body works on the engine
  and the file system), a notification of the host, text handed to
  \<^verbatim>\<open>editor.insertText\<close>, a file copy.
\<close>

datatype effect =
    PostMessage message
  | LoadPreview
  | AddError string
  | AddInfo string
  | InsertText string
  | CopyFile string string

text \<open>
  What \<^verbatim>\<open>this.engine\<close> holds: null, a reference to a constructed engine, or, when the
  key read from the engines map is a property every object inherits, that inherited
  value.
\<close>

datatype engine_val = NoEngine | EngineRef nat | Inherited string

record view =
  editor :: "editor option"
  config :: config
  engine :: engine_val
  JSAndCssFiles :: "string list"
  editorScrollDelay :: int
  scrollTimeout :: "nat option"
  zoomLevel :: jsval
  offsetHeight :: rat
  effects :: "effect list"

text \<open>\<^verbatim>\<open>postMessage\<close>, for a view whose webview exists (the constructor creates it).\<close>

definition postMessage :: "message \<Rightarrow> view \<Rightarrow> view" where
  "postMessage m v = v\<lparr>effects := effects v @ [PostMessage m]\<rparr>"

section \<open>Zoom level\<close>

text \<open>\<^verbatim>\<open>this.zoomLevel = zoomLevel || 1\<close>\<close>

definition setZoomLevel :: "jsval \<Rightarrow> view \<Rightarrow> view" where
  "setZoomLevel z v = v\<lparr>zoomLevel := js_or z (JNumber (Number 1))\<rparr>"

text \<open>
  The handler \<^verbatim>\<open>'setZoomLevel': function(sourceUri, zoomLevel)\<close> of
  \<^verbatim>\<open>MESSAGE_DISPATCH_EVENTS\<close>, applied to the argument list of the message.
\<close>

definition dispatch_setZoomLevel :: "jsval list \<Rightarrow> view \<Rightarrow> view" where
  "dispatch_setZoomLevel args v = setZoomLevel (arg 1 args) v"

section \<open>Scroll sync: editor to preview\<close>

text \<open>
  The handler of \<^verbatim>\<open>onDidChangeCursorPosition\<close>.  \<open>now\<close> is \<^verbatim>\<open>Date.now()\<close>, \<open>screenRow\<close>
  and \<open>bufferRow\<close> are the rows of \<^verbatim>\<open>event.newScreenPosition\<close> and
  \<^verbatim>\<open>event.newBufferPosition\<close>.  The handler is registered on a bound editor.
\<close>

definition onDidChangeCursorPosition :: "int \<Rightarrow> int \<Rightarrow> int \<Rightarrow> editor \<Rightarrow> view \<Rightarrow> view" where
  "onDidChangeCursorPosition now screenRow bufferRow ed v =
     (if \<not> scrollSync (config v) then v
      else if now < editorScrollDelay v then v
      else
        let firstVisibleScreenRow = getFirstVisibleScreenRow ed;
            lastVisibleScreenRow = getLastVisibleScreenRow ed;
            topRatio = js_div (screenRow - firstVisibleScreenRow)
                              (lastVisibleScreenRow - firstVisibleScreenRow)
        in postMessage (ChangeTextEditorSelection bufferRow topRatio) v)"

text \<open>The closed interval [0,1] of JavaScript numbers.\<close>

fun in_unit_interval :: "jsnum \<Rightarrow> bool" where
  "in_unit_interval (Number q) = (0 \<le> q \<and> q \<le> 1)"
| "in_unit_interval PosInfinity = False"
| "in_unit_interval NegInfinity = False"
| "in_unit_interval NaN = False"

section \<open>Scroll sync: \<^verbatim>\<open>syncPreview\<close>\<close>

definition syncPreview :: "view \<Rightarrow> view" where
  "syncPreview v =
     (case editor v of
        None \<Rightarrow> v
      | Some ed \<Rightarrow>
          let firstVisibleScreenRow = getFirstVisibleScreenRow ed in
          if firstVisibleScreenRow = 0
          then postMessage (ChangeTextEditorSelection 0 (Number 0)) v
          else
            let lastVisibleScreenRow = getLastVisibleScreenRow ed in
            if lastVisibleScreenRow = getLastScreenRow ed
            then postMessage (ChangeTextEditorSelection (getLastBufferRow ed) (Number 1)) v
            else
              let midBufferRow = bufferRowForScreenRow ed
                    \<lfloor>(of_int (lastVisibleScreenRow + firstVisibleScreenRow) :: rat) / 2\<rfloor>
              in postMessage (ChangeTextEditorSelection midBufferRow (Number (1 / 2))) v)"

section \<open>Strings\<close>

text \<open>
  The alternative of \<open>alts\<close> (the first in their order) that the string starts with.
\<close>

definition match_at :: "string list \<Rightarrow> string \<Rightarrow> string option" where
  "match_at alts s = find (\<lambda>a. prefix a s) alts"

text \<open>
  The leftmost match of a pattern that is an alternation of literal strings: its index
  and the matched text.  A literal pattern is the alternation of itself.
\<close>

fun find_any :: "string list \<Rightarrow> string \<Rightarrow> (nat \<times> string) option" where
  "find_any alts [] = map_option (Pair 0) (match_at alts [])"
| "find_any alts (c # cs) =
     (case match_at alts (c # cs) of
        Some a \<Rightarrow> Some (0, a)
      | None \<Rightarrow> map_option (\<lambda>(i, a). (Suc i, a)) (find_any alts cs))"

text \<open>\<^verbatim>\<open>s.indexOf(pat)\<close>\<close>

definition indexOf :: "string \<Rightarrow> string \<Rightarrow> int" where
  "indexOf s pat = (case find_any [pat] s of None \<Rightarrow> - 1 | Some (i, a) \<Rightarrow> int i)"

text \<open>\<^verbatim>\<open>s.lastIndexOf(c)\<close> for a pattern of one character\<close>

fun lastIndexOf :: "string \<Rightarrow> char \<Rightarrow> int" where
  "lastIndexOf [] c = - 1"
| "lastIndexOf (x # xs) c =
     (let r = lastIndexOf xs c in if 0 \<le> r then r + 1 else if x = c then 0 else - 1)"

text \<open>\<^verbatim>\<open>s.slice(a, b)\<close>: a negative index counts from the end, both are cut to the string.\<close>

definition js_slice :: "string \<Rightarrow> int \<Rightarrow> int \<Rightarrow> string" where
  "js_slice s a b =
     (let len = int (length s);
          start = (if a < 0 then max (len + a) 0 else min a len);
          stop = (if b < 0 then max (len + b) 0 else min b len)
      in take (nat (stop - start)) (drop (nat start) s))"

text \<open>
  The replacement text of \<^verbatim>\<open>String.prototype.replace\<close> for a pattern without capture
  groups: \<^verbatim>\<open>$$\<close> is a dollar sign, \<^verbatim>\<open>$&\<close> the match, \<^verbatim>\<open>$`\<close> the text before it,
  \<^verbatim>\<open>$'\<close> the text after it; any other dollar sign stands for itself.
\<close>

fun get_substitution :: "string \<Rightarrow> string \<Rightarrow> string \<Rightarrow> string \<Rightarrow> string" where
  "get_substitution m pre post [] = []"
| "get_substitution m pre post [c] = [c]"
| "get_substitution m pre post (c # d # r) =
     (if c = CHR ''$'' \<and> d = CHR ''$'' then CHR ''$'' # get_substitution m pre post r
      else if c = CHR ''$'' \<and> d = CHR ''&'' then m @ get_substitution m pre post r
      else if c = CHR ''$'' \<and> d = CHR 0x60 then pre @ get_substitution m pre post r
      else if c = CHR ''$'' \<and> d = CHR 0x27 then post @ get_substitution m pre post r
      else c # get_substitution m pre post (d # r))"

text \<open>
  \<^verbatim>\<open>s.replace(pattern, repl)\<close> for a pattern without the global flag: the leftmost
  match only.
\<close>

definition js_replace_any :: "string \<Rightarrow> string list \<Rightarrow> string \<Rightarrow> string" where
  "js_replace_any s alts repl =
     (case find_any alts s of
        None \<Rightarrow> s
      | Some (i, m) \<Rightarrow>
          let pre = take i s; post = drop (i + length m) s
          in pre @ get_substitution m pre post repl @ post)"

definition js_replace :: "string \<Rightarrow> string \<Rightarrow> string \<Rightarrow> string" where
  "js_replace s pat repl = js_replace_any s [pat] repl"

section \<open>The host's text buffer\<close>

text \<open>
  \<^verbatim>\<open>buffer.lines\<close> is the array of the buffer's lines without their line endings; a
  buffer has at least one line.  \<^verbatim>\<open>setTextInRange\<close> is the host's (Atom's TextBuffer):
  it clips both ends of the range to the buffer (a row past the last one is the end of
  the buffer, a column is cut to its line) and replaces the text between them.  The new
  text is cut into lines at its line feeds; its first line continues the text before
  the range and its last line is continued by the text after the range.
\<close>

fun split_lines :: "string \<Rightarrow> string list" where
  "split_lines [] = [[]]"
| "split_lines (c # cs) =
     (if c = CHR 0x0A then [] # split_lines cs
      else (case split_lines cs of [] \<Rightarrow> [[c]] | l # ls \<Rightarrow> (c # l) # ls))"

definition line_at :: "string list \<Rightarrow> nat \<Rightarrow> string" where
  "line_at ls r = (if r < length ls then ls ! r else [])"

definition clipPosition :: "string list \<Rightarrow> int \<times> int \<Rightarrow> nat \<times> nat" where
  "clipPosition ls p =
     (case p of (row, column) \<Rightarrow>
        if row < 0 then (0, 0)
        else if int (length ls) - 1 < row
        then (length ls - 1, length (line_at ls (length ls - 1)))
        else (nat row, nat (min (max column 0) (int (length (line_at ls (nat row)))))))"

fun glue :: "string \<Rightarrow> string list \<Rightarrow> string \<Rightarrow> string list" where
  "glue pre [] post = [pre @ post]"
| "glue pre [l] post = [pre @ l @ post]"
| "glue pre (l # m # ms) post = (pre @ l) # butlast (m # ms) @ [last (m # ms) @ post]"

definition setTextInRange :: "(int \<times> int) \<times> (int \<times> int) \<Rightarrow> string \<Rightarrow> string list \<Rightarrow> string list" where
  "setTextInRange rng txt ls =
     (case (clipPosition ls (fst rng), clipPosition ls (snd rng)) of
        ((sr, sc), (er, ec)) \<Rightarrow>
          take sr ls
          @ glue (take sc (line_at ls sr)) (split_lines txt) (drop ec (line_at ls er))
          @ drop (Suc er) ls)"

datatype error = TypeError string

section \<open>Task list checkboxes\<close>

text \<open>
  The handler \<^verbatim>\<open>'clickTaskListCheckbox': function(sourceUri, dataLine)\<close>.  Reading a
  line outside \<^verbatim>\<open>buffer.lines\<close> gives undefined, and \<^verbatim>\<open>line.match\<close> throws on it.
  \<^verbatim>\<open>/\[ \]/\<close> matches the literal \<^verbatim>\<open>[ ]\<close>; \<^verbatim>\<open>/\[[xX]\]/\<close> the literals \<^verbatim>\<open>[x]\<close> and
  \<^verbatim>\<open>[X]\<close>.
\<close>

definition clickTaskListCheckbox :: "int \<Rightarrow> view \<Rightarrow> error + view" where
  "clickTaskListCheckbox dataLine v =
     (case editor v of
        None \<Rightarrow> Inr v
      | Some ed \<Rightarrow>
          (case buffer ed of
             None \<Rightarrow> Inr v
           | Some ls \<Rightarrow>
               if dataLine < 0 \<or> int (length ls) \<le> dataLine
               then Inl (TypeError ''Cannot read property match of undefined'')
               else
                 let line = ls ! nat dataLine;
                     line' = (if find_any [''[ ]''] line \<noteq> None
                              then js_replace line ''[ ]'' ''[x]''
                              else js_replace_any line [''[x]'', ''[X]''] ''[ ]'')
                 in Inr (v\<lparr>editor := Some (ed\<lparr>buffer := Some
                      (setTextInRange ((dataLine, 0), (dataLine + 1, 0))
                         (line' @ [CHR 0x0A]) ls)\<rparr>)\<rparr>)))"

text \<open>The lines of the document the session is bound to.\<close>

definition buffer_lines :: "view \<Rightarrow> string list" where
  "buffer_lines v =
     (case editor v of None \<Rightarrow> [] | Some ed \<Rightarrow> (case buffer ed of None \<Rightarrow> [] | Some ls \<Rightarrow> ls))"

section \<open>Upload hints\<close>

definition replaceHint :: "int \<Rightarrow> string \<Rightarrow> string \<Rightarrow> view \<Rightarrow> error + bool \<times> view" where
  "replaceHint bufferRow hint withStr v =
     (case editor v of
        None \<Rightarrow> Inr (False, v)
      | Some ed \<Rightarrow>
          (case buffer ed of
             None \<Rightarrow> Inl (TypeError ''Cannot read property lines of null'')
           | Some ls \<Rightarrow>
               if bufferRow < 0 \<or> int (length ls) \<le> bufferRow
               then Inl (TypeError ''Cannot read property indexOf of undefined'')
               else
                 let textLine = ls ! nat bufferRow in
                 if 0 \<le> indexOf textLine hint
                 then Inr (True, v\<lparr>editor := Some (ed\<lparr>buffer := Some
                        (setTextInRange ((bufferRow, 0), (bufferRow, int (length textLine)))
                           (js_replace textLine hint withStr) ls)\<rparr>)\<rparr>)
                 else Inr (False, v)))"

text \<open>
  The loop \<^verbatim>\<open>while (i <= bufferRow + 20) { if (this.replaceHint(i, ...)) break; i++ }\<close>,
  with \<open>hi\<close> for \<^verbatim>\<open>bufferRow + 20\<close>.
\<close>

function scan_hint :: "int \<Rightarrow> int \<Rightarrow> string \<Rightarrow> string \<Rightarrow> view \<Rightarrow> error + view" where
  "scan_hint i hi hint withStr v =
     (if i \<le> hi
      then (case replaceHint i hint withStr v of
              Inl e \<Rightarrow> Inl e
            | Inr (found, v') \<Rightarrow> if found then Inr v' else scan_hint (i + 1) hi hint withStr v')
      else Inr v)"
  by pat_completeness auto

termination
  by (relation "measure (\<lambda>(i, hi, hint, withStr, v). nat (hi + 1 - i))") auto

declare scan_hint.simps [simp del]

text \<open>
  The description of an image file name as \<^verbatim>\<open>setUploadedImageURL\<close> and the
  \<^verbatim>\<open>ENOENT\<close> branch of \<^verbatim>\<open>pasteImageFile\<close> compute it: the test
  \<^verbatim>\<open>if (imageFileName.lastIndexOf('.'))\<close> is on the truthiness of the offset.
\<close>

definition description_of :: "string \<Rightarrow> string" where
  "description_of imageFileName =
     (if lastIndexOf imageFileName (CHR ''.'') \<noteq> 0
      then js_slice imageFileName 0 (lastIndexOf imageFileName (CHR ''.''))
      else imageFileName)"

definition setUploadedImageURL :: "string \<Rightarrow> string \<Rightarrow> string \<Rightarrow> int \<Rightarrow> view \<Rightarrow> error + view" where
  "setUploadedImageURL imageFileName url hint bufferRow v =
     (let description = description_of imageFileName;
          withStr = ''!['' @ description @ '']('' @ url @ '')''
      in case replaceHint bufferRow hint withStr v of
           Inl e \<Rightarrow> Inl e
         | Inr (found, v') \<Rightarrow>
             if \<not> found then scan_hint (bufferRow - 20) (bufferRow + 20) hint withStr v'
             else Inr v')"

section \<open>Pasting an image file\<close>

text \<open>
  Node's \<^verbatim>\<open>path\<close> module is a parameter of the model: \<^verbatim>\<open>path.basename\<close>,
  \<^verbatim>\<open>path.dirname\<close> and \<^verbatim>\<open>path.resolve\<close> of two arguments.
\<close>

record path_module =
  basename :: "string \<Rightarrow> string"
  dirname :: "string \<Rightarrow> string"
  resolve :: "string \<Rightarrow> string \<Rightarrow> string"

text \<open>
  What \<^verbatim>\<open>fs.stat\<close> hands to its callback: no error (the file exists), the error
  \<^verbatim>\<open>ENOENT\<close>, or another error with its \<^verbatim>\<open>toString()\<close>.
\<close>

datatype stat_result = Existed | ENOENT | StatError string

text \<open>
  The branch \<^verbatim>\<open>err == null\<close> of the callback: the description and the new file name,
  from the file name and \<open>uid\<close>.
\<close>

definition existed_rename :: "string \<Rightarrow> string \<Rightarrow> string \<times> string" where
  "existed_rename imageFileName uid =
     (let lastDotOffset = lastIndexOf imageFileName (CHR ''.'') in
      if 0 < lastDotOffset
      then (js_slice imageFileName 0 lastDotOffset,
            js_slice imageFileName 0 lastDotOffset @ uid
              @ js_slice imageFileName lastDotOffset (int (length imageFileName)))
      else (imageFileName, imageFileName @ uid))"

text \<open>
  \<^verbatim>\<open>pasteImageFile\<close>, with the callbacks of \<^verbatim>\<open>fs.mkdir\<close> and \<^verbatim>\<open>fs.stat\<close> run on the
  state the call left.  \<open>projectDirectoryPath\<close> is the result of
  \<^verbatim>\<open>getProjectDirectoryPath()\<close>, \<open>st\<close> what \<^verbatim>\<open>fs.stat(destPath)\<close> reports, and \<open>rnd\<close> the
  string \<^verbatim>\<open>Math.random().toString(36).substr(2, 9)\<close>.
\<close>

definition pasteImageFile ::
  "path_module \<Rightarrow> string \<Rightarrow> stat_result \<Rightarrow> string \<Rightarrow> string \<Rightarrow> view \<Rightarrow> error + view" where
  "pasteImageFile P projectDirectoryPath st rnd imageFilePath v =
     (case editor v of
        None \<Rightarrow> Inr v
      | Some ed \<Rightarrow>
          let folder = imageFolderPath (config v);
              imageFileName = basename P imageFilePath
          in case (if take 1 folder = ''/''
                   then Some (resolve P projectDirectoryPath (''.'' @ folder))
                   else map_option (\<lambda>p. resolve P (dirname P p) folder) (getPath ed)) of
               None \<Rightarrow> Inl (TypeError ''Path must be a string'')
             | Some assetDirectoryPath \<Rightarrow>
                 let destPath = resolve P assetDirectoryPath (basename P imageFilePath);
                     inserted = (\<lambda>description name copied.
                        let url0 = folder @ ''/'' @ name;
                            url = (if 0 \<le> indexOf url0 '' '' then ''<'' @ url0 @ ''>'' else url0)
                        in v\<lparr>effects := effects v @
                             [CopyFile imageFilePath copied,
                              AddInfo (''Image '' @ name @ '' has been copied to folder ''
                                       @ assetDirectoryPath),
                              InsertText (''!['' @ description @ '']('' @ url @ '')'')]\<rparr>)
                 in case st of
                      Existed \<Rightarrow>
                        (case existed_rename imageFileName (''_'' @ rnd) of
                           (description, name) \<Rightarrow>
                             Inr (inserted description name (resolve P assetDirectoryPath name)))
                    | ENOENT \<Rightarrow>
                        Inr (inserted (description_of imageFileName) imageFileName destPath)
                    | StatError e \<Rightarrow> Inr (v\<lparr>effects := effects v @ [AddError e]\<rparr>))"

section \<open>The render decision\<close>

text \<open>
  What \<^verbatim>\<open>engine.parseMD\<close> resolves to, as far as the session reads it.  The fields of
  the front matter are JavaScript values: absent ones are undefined.
\<close>

record yaml_config =
  yaml_isPresentationMode :: jsval
  yaml_id :: jsval
  yaml_class :: jsval

record parse_result =
  pr_html :: string
  pr_tocHTML :: string
  pr_JSAndCssFiles :: "string list"
  pr_yamlConfig :: yaml_config

datatype 'a settled = Resolved 'a | Rejected string

text \<open>
  Modelled from the spec: \<^verbatim>\<open>mume.utility.isArrayEqual\<close> belongs to the engine's library
  and is not among the sources.  The specification says of the two dependency lists:
  "Compared by set-equality (order-insensitive) against the previous render's set".
\<close>

definition isArrayEqual :: "string list \<Rightarrow> string list \<Rightarrow> bool" where
  "isArrayEqual x y = (set x = set y)"

text \<open>The callback of \<^verbatim>\<open>parseMD(...).then\<close>, run on the state at the time the parse resolves.\<close>

definition renderMarkdown_then :: "parse_result \<Rightarrow> view \<Rightarrow> error + view" where
  "renderMarkdown_then r v =
     (if \<not> isArrayEqual (pr_JSAndCssFiles r) (JSAndCssFiles v)
         \<or> truthy (yaml_isPresentationMode (pr_yamlConfig r))
      then Inr (v\<lparr>JSAndCssFiles := pr_JSAndCssFiles r, effects := effects v @ [LoadPreview]\<rparr>)
      else
        (case editor v of
           None \<Rightarrow> Inl (TypeError ''Cannot read property getLineCount of null'')
         | Some ed \<Rightarrow>
             Inr (postMessage
                    (UpdateHTML (pr_html r) (pr_tocHTML r) (getLineCount ed) (getPath ed)
                       (js_or (yaml_id (pr_yamlConfig r)) (JString []))
                       (js_or (yaml_class (pr_yamlConfig r)) (JString []))) v)))"

text \<open>
  \<^verbatim>\<open>renderMarkdown\<close>.  \<open>isPreviewInPresentationMode\<close> is the engine's flag when the
  method is called and \<open>outcome\<close> how the promise of \<^verbatim>\<open>parseMD\<close> settles.  The promise
  has a \<^verbatim>\<open>then\<close> callback and no other: when it rejects, no code of the session runs.
\<close>

definition renderMarkdown :: "bool \<Rightarrow> parse_result settled \<Rightarrow> view \<Rightarrow> error + view" where
  "renderMarkdown isPreviewInPresentationMode outcome v =
     (case editor v of
        None \<Rightarrow> Inr v
      | Some ed \<Rightarrow>
          if isPreviewInPresentationMode
          then Inr (v\<lparr>effects := effects v @ [LoadPreview]\<rparr>)
          else
            let v1 = postMessage StartParsingMarkdown v in
            (case outcome of
               Resolved r \<Rightarrow> renderMarkdown_then r v1
             | Rejected e \<Rightarrow> Inr v1))"

text \<open>The error notifications among the effects.\<close>

definition error_notifications :: "view \<Rightarrow> string list" where
  "error_notifications v = concat (map (\<lambda>e. case e of AddError m \<Rightarrow> [m] | _ \<Rightarrow> []) (effects v))"

section \<open>The engines of the process\<close>

text \<open>
  \<^verbatim>\<open>MARKDOWN_ENGINES_MAP\<close> is an object of the process used as a map from
  \<^verbatim>\<open>editor.getPath()\<close> to the engine.  An engine is an object on the heap; a reference to
  it is its index among the engines constructed so far.
\<close>

record engine_obj =
  filePath :: "string option"
  projectDirectoryPath :: string
  engine_config :: config

record process =
  MARKDOWN_ENGINES_MAP :: "string \<rightharpoonup> nat"
  engines_heap :: "engine_obj list"

definition init_process :: process where
  "init_process = \<lparr>MARKDOWN_ENGINES_MAP = Map.empty, engines_heap = []\<rparr>"

text \<open>The property key of a path: an undefined path is the key \<^verbatim>\<open>undefined\<close>.\<close>

definition property_key :: "string option \<Rightarrow> string" where
  "property_key p = (case p of None \<Rightarrow> ''undefined'' | Some s \<Rightarrow> s)"

text \<open>
  The properties an object literal inherits from \<^verbatim>\<open>Object.prototype\<close>: the operator
  \<^verbatim>\<open>in\<close> finds them too.  No absolute path is one of them.
\<close>

definition object_prototype_keys :: "string list" where
  "object_prototype_keys =
     [''constructor'', ''hasOwnProperty'', ''isPrototypeOf'', ''propertyIsEnumerable'',
      ''toLocaleString'', ''toString'', ''valueOf'', ''__proto__'', ''__defineGetter__'',
      ''__defineSetter__'', ''__lookupGetter__'', ''__lookupSetter__'']"

definition key_in :: "string \<Rightarrow> (string \<rightharpoonup> nat) \<Rightarrow> bool" where
  "key_in k m = (m k \<noteq> None \<or> k \<in> set object_prototype_keys)"

definition map_get :: "(string \<rightharpoonup> nat) \<Rightarrow> string \<Rightarrow> engine_val" where
  "map_get m k =
     (case m k of
        Some r \<Rightarrow> EngineRef r
      | None \<Rightarrow> if k \<in> set object_prototype_keys then Inherited k else NoEngine)"

text \<open>
  \<^verbatim>\<open>initEvents\<close> through its call of \<^verbatim>\<open>loadPreview\<close>: the dependency list is reset,
  the engine of the editor's path is looked up, or constructed and stored, and the
  preview is loaded.  \<open>projectDir\<close> is
  the result of \<^verbatim>\<open>getProjectDirectoryPath()\<close>.
\<close>

definition initEvents :: "string \<Rightarrow> process \<times> view \<Rightarrow> error + process \<times> view" where
  "initEvents projectDir pv =
     (case pv of (p, v) \<Rightarrow>
        (case editor v of
           None \<Rightarrow> Inl (TypeError ''Cannot read property getPath of null'')
         | Some ed \<Rightarrow>
             let k = property_key (getPath ed) in
             if key_in k (MARKDOWN_ENGINES_MAP p)
             then Inr (p, v\<lparr>JSAndCssFiles := [],
                             engine := map_get (MARKDOWN_ENGINES_MAP p) k,
                             effects := effects v @ [LoadPreview]\<rparr>)
             else
               let r = length (engines_heap p);
                   e = \<lparr>filePath = getPath ed, projectDirectoryPath = projectDir,
                        engine_config = config v\<rparr>
               in Inr (p\<lparr>MARKDOWN_ENGINES_MAP := (MARKDOWN_ENGINES_MAP p)(k \<mapsto> r),
                         engines_heap := engines_heap p @ [e]\<rparr>,
                       v\<lparr>JSAndCssFiles := [], engine := EngineRef r,
                         effects := effects v @ [LoadPreview]\<rparr>)))"

text \<open>
  The process after a sequence of binds: each is a session (with the editor it was
  bound to) running \<^verbatim>\<open>initEvents\<close>.  A bind that throws leaves the process as it was.
\<close>

fun bind_all :: "(string \<times> view) list \<Rightarrow> process \<Rightarrow> process" where
  "bind_all [] p = p"
| "bind_all ((projectDir, v) # bs) p =
     (case initEvents projectDir (p, v) of
        Inl e \<Rightarrow> bind_all bs p
      | Inr (p', v') \<Rightarrow> bind_all bs p')"

text \<open>The engines constructed for a key.\<close>

definition engines_for :: "string \<Rightarrow> process \<Rightarrow> engine_obj list" where
  "engines_for k p = filter (\<lambda>e. property_key (filePath e) = k) (engines_heap p)"

section \<open>The scroll animation\<close>

text \<open>
  \<^verbatim>\<open>scrollToBufferPosition\<close> animates with timers of the event loop.  A pending timer is
  the closure \<^verbatim>\<open>setTimeout\<close> was given: the \<open>duration\<close> left, the target offset and the
  editor element, both fixed when the animation was requested.  The world of a session
  is the session, the pending timers of its animations, the next timer handle
  (\<^verbatim>\<open>setTimeout\<close> returns a fresh positive integer) and the scroll offset of each editor
  element.
\<close>

record timer =
  handle :: nat
  duration :: int
  target :: rat
  element :: nat

record world =
  session :: view
  timers :: "timer list"
  next_handle :: nat
  scrollTops :: "nat \<Rightarrow> rat"

definition init_world :: "view \<Rightarrow> world" where
  "init_world v =
     \<lparr>session = v\<lparr>scrollTimeout := None\<rparr>, timers = [], next_handle = 1,
      scrollTops = (\<lambda>el. 0)\<rparr>"

definition clearTimeout :: "nat \<Rightarrow> world \<Rightarrow> world" where
  "clearTimeout h w = w\<lparr>timers := filter (\<lambda>t. handle t \<noteq> h) (timers w)\<rparr>"

text \<open>
  The host's \<^verbatim>\<open>setScrollTop\<close> may cut the offset to the range the editor can scroll:
  \<open>clamp\<close> is what it stores for the offset it is given.
\<close>

definition setScrollTop :: "(rat \<Rightarrow> rat) \<Rightarrow> nat \<Rightarrow> rat \<Rightarrow> world \<Rightarrow> world" where
  "setScrollTop clamp el x w = w\<lparr>scrollTops := (scrollTops w)(el := clamp x)\<rparr>"

definition set_editorScrollDelay :: "int \<Rightarrow> world \<Rightarrow> world" where
  "set_editorScrollDelay t w = w\<lparr>session := (session w)\<lparr>editorScrollDelay := t\<rparr>\<rparr>"

text \<open>\<^verbatim>\<open>helper(duration)\<close>: \<^verbatim>\<open>this.scrollTimeout = setTimeout(..., delay)\<close>\<close>

definition helper :: "int \<Rightarrow> rat \<Rightarrow> nat \<Rightarrow> world \<Rightarrow> world" where
  "helper d scrollTop el w =
     (let h = next_handle w in
      w\<lparr>session := (session w)\<lparr>scrollTimeout := Some h\<rparr>,
        timers := timers w @ [\<lparr>handle = h, duration = d, target = scrollTop, element = el\<rparr>],
        next_handle := Suc h\<rparr>)"

definition scrollToBufferPosition :: "int \<Rightarrow> int \<Rightarrow> world \<Rightarrow> world" where
  "scrollToBufferPosition now row w =
     (case editor (session w) of
        None \<Rightarrow> w
      | Some ed \<Rightarrow>
          if row < 0 then w
          else
            let w1 = set_editorScrollDelay (now + 500) w;
                w2 = (case scrollTimeout (session w1) of
                        None \<Rightarrow> w1
                      | Some h \<Rightarrow> if h \<noteq> 0 then clearTimeout h w1 else w1);
                screenRow = screenRowForBufferRow ed row;
                scrollTop = fl (fl (of_int screenRow * getLineHeightInPixels ed)
                                - fl (offsetHeight (session w) / 2));
                scrollDuration = 120
            in helper scrollDuration scrollTop (getElement ed) w2)"

text \<open>
  The timer with handle \<open>h\<close> fires at time \<open>now\<close>: the callback given to \<^verbatim>\<open>setTimeout\<close>
  runs.  A timer that is not pending does not fire.
\<close>

definition fire :: "(rat \<Rightarrow> rat) \<Rightarrow> int \<Rightarrow> nat \<Rightarrow> world \<Rightarrow> world" where
  "fire clamp now h w =
     (case find (\<lambda>t. handle t = h) (timers w) of
        None \<Rightarrow> w
      | Some t \<Rightarrow>
          let w0 = w\<lparr>timers := filter (\<lambda>t. handle t \<noteq> h) (timers w)\<rparr>;
              delay = (10::int)
          in if duration t \<le> 0
             then setScrollTop clamp (element t) (target t)
                    (set_editorScrollDelay (now + 500) w0)
             else
               let difference = fl (target t - scrollTops w0 (element t));
                   perTick = fl (fl (difference / of_int (duration t)) * of_int delay);
                   w1 = set_editorScrollDelay (now + 500) w0;
                   s = fl (scrollTops w1 (element t) + perTick);
                   w2 = setScrollTop clamp (element t) s w1
               in if s = target t then w2
                  else helper (duration t - delay) (target t) (element t) w2)"

text \<open>One turn of the event loop that fires the oldest pending timer, if there is one.\<close>

definition tick :: "(rat \<Rightarrow> rat) \<Rightarrow> int \<Rightarrow> world \<Rightarrow> world" where
  "tick clamp now w = (case timers w of [] \<Rightarrow> w | t # ts \<Rightarrow> fire clamp now (handle t) w)"

text \<open>
  What can happen to a session's world: a reveal request from the webview, a timer
  firing, the session's editor being replaced or destroyed, the user scrolling an editor
  element to an offset.
\<close>

datatype event = Reveal int int | Fire int nat | SetEditor "editor option" | Scrolled nat rat

fun step :: "(rat \<Rightarrow> rat) \<Rightarrow> event \<Rightarrow> world \<Rightarrow> world" where
  "step clamp (Reveal now row) w = scrollToBufferPosition now row w"
| "step clamp (Fire now h) w = fire clamp now h w"
| "step clamp (SetEditor ed) w = w\<lparr>session := (session w)\<lparr>editor := ed\<rparr>\<rparr>"
| "step clamp (Scrolled el x) w = w\<lparr>scrollTops := (scrollTops w)(el := x)\<rparr>"

definition run :: "(rat \<Rightarrow> rat) \<Rightarrow> event list \<Rightarrow> world \<Rightarrow> world" where
  "run clamp evs w = fold (step clamp) evs w"

section \<open>Invariants and measures\<close>

text \<open>
  The map and the heap agree: a stored reference points at an engine constructed for its
  key, and every constructed engine is the one stored for its key.
\<close>

definition engines_consistent :: "process \<Rightarrow> bool" where
  "engines_consistent p =
     ((\<forall>k r. MARKDOWN_ENGINES_MAP p k = Some r \<longrightarrow>
          r < length (engines_heap p) \<and> property_key (filePath (engines_heap p ! r)) = k)
      \<and> (\<forall>i < length (engines_heap p).
            MARKDOWN_ENGINES_MAP p (property_key (filePath (engines_heap p ! i))) = Some i))"

text \<open>
  At most one timer is pending, and it is the one \<^verbatim>\<open>this.scrollTimeout\<close> holds; handles
  are positive and below the next one; an animation has at most 120 units left.
\<close>

definition single_animation :: "world \<Rightarrow> bool" where
  "single_animation w =
     (0 < next_handle w
      \<and> (timers w = []
         \<or> (\<exists>t. timers w = [t] \<and> scrollTimeout (session w) = Some (handle t)
                \<and> 0 < handle t \<and> handle t < next_handle w \<and> duration t \<le> 120)))"

text \<open>
  The offset a firing timer steps to: \<^verbatim>\<open>getScrollTop() + difference / duration * delay\<close>.
\<close>

definition stepped :: "world \<Rightarrow> timer \<Rightarrow> rat" where
  "stepped w t =
     fl (scrollTops w (element t)
         + fl (fl (fl (target t - scrollTops w (element t)) / of_int (duration t))
               * of_int (10::int)))"

text \<open>A bound on the timer callbacks an animation still needs.\<close>

definition remaining :: "world \<Rightarrow> nat" where
  "remaining w =
     (case timers w of
        [] \<Rightarrow> 0
      | t # ts \<Rightarrow> if duration t \<le> 0 then 1 else nat ((duration t + 9) div 10) + 1)"

section \<open>A session to compute with\<close>

text \<open>
  A preview in single-preview mode with scroll sync on, bound to a five-line document
  of which screen rows 0 to 4 are visible.
\<close>

definition example_config :: config where
  "example_config =
     \<lparr>scrollSync = True, liveUpdate = True, singlePreview = True,
      closePreviewAutomatically = False, imageFolderPath = ''/assets''\<rparr>"

definition example_editor :: editor where
  "example_editor =
     \<lparr>getPath = Some ''/home/user/notes.md'',
      buffer = Some [''# Notes'', [], ''- [ ] todo'', ''- [x] done'', []],
      getLineCount = 5,
      getFirstVisibleScreenRow = 0,
      getLastVisibleScreenRow = 4,
      getLastScreenRow = 4,
      getLastBufferRow = 4,
      bufferRowForScreenRow = (\<lambda>r. r),
      screenRowForBufferRow = (\<lambda>r. r),
      getLineHeightInPixels = 20,
      getElement = 0\<rparr>"

definition example_view :: view where
  "example_view =
     \<lparr>editor = Some example_editor, config = example_config, engine = NoEngine,
      JSAndCssFiles = [], editorScrollDelay = 0, scrollTimeout = None,
      zoomLevel = JNumber (Number 1), offsetHeight = 600, effects = []\<rparr>"

text \<open>
  A hint as \<^verbatim>\<open>uploadImageFile\<close> builds it (its ellipsis written as three dots), and two
  documents that hold it: one of 43 lines with the hint on line 22, and one of 22 lines
  with the hint on lines 18 and 21.
\<close>

definition example_hint :: string where
  "example_hint = ''![Uploading photo.png... (k3j2h1x9q)]()''"

definition hint_line :: string where
  "hint_line = ''see '' @ example_hint @ '' here''"

definition second_hint_line :: string where
  "second_hint_line = ''again '' @ example_hint"

definition long_document :: "string list" where
  "long_document = replicate 22 ''text'' @ [hint_line] @ replicate 20 ''text''"

definition twice_document :: "string list" where
  "twice_document = replicate 18 ''text'' @ [hint_line, ''text'', ''text'', second_hint_line]"

definition with_document :: "string list \<Rightarrow> view" where
  "with_document ls = example_view\<lparr>editor := Some (example_editor\<lparr>buffer := Some ls\<rparr>)\<rparr>"

text \<open>
  A path module to compute with: POSIX paths without \<^verbatim>\<open>.\<close> and \<^verbatim>\<open>..\<close> segments, where
  resolving a relative path appends it to the directory.
\<close>

definition posix_path :: path_module where
  "posix_path =
     \<lparr>basename = (\<lambda>p. rev (takeWhile (\<lambda>c. c \<noteq> CHR ''/'') (rev p))),
      dirname = (\<lambda>p. rev (drop 1 (dropWhile (\<lambda>c. c \<noteq> CHR ''/'') (rev p)))),
      resolve = (\<lambda>d p. if take 1 p = ''/'' then p
                        else if take 2 p = ''./'' then d @ drop 1 p
                        else d @ ''/'' @ p)\<rparr>"

text \<open>The example session bound to another document, \<^verbatim>\<open>todo.md\<close>.\<close>

definition todo_view :: view where
  "todo_view = example_view\<lparr>editor := Some (example_editor\<lparr>getPath := Some ''/home/user/todo.md''\<rparr>)\<rparr>"

text \<open>
  Three worlds of the example session (line height 20, preview height 600, the host
  storing the offset it is given).  In the first the user has scrolled to offset 4409
  and the webview asks for row 0, whose target offset is 0 * 20 - 600 / 2 = -300; the
  second is the first after twelve timer callbacks; in the third the webview asks for
  row 15, whose target offset 0 is the offset the editor has.
\<close>

definition scrolled_world :: world where
  "scrolled_world = run (\<lambda>x. x) [Scrolled 0 4409, Reveal 1000 0] (init_world example_view)"

definition final_world :: world where
  "final_world =
     run (\<lambda>x. x)
       [Fire 1010 1, Fire 1020 2, Fire 1030 3, Fire 1040 4, Fire 1050 5, Fire 1060 6,
        Fire 1070 7, Fire 1080 8, Fire 1090 9, Fire 1100 10, Fire 1110 11, Fire 1120 12]
       scrolled_world"

definition centred_world :: world where
  "centred_world = run (\<lambda>x. x) [Reveal 1000 15] (init_world example_view)"

section \<open>Properties: zoom level\<close>

text \<open>
  C10. For every argument \<open>z\<close>, \<^verbatim>\<open>setZoomLevel\<close> stores \<open>z\<close> as the zoom factor of the
  session when \<open>z\<close> is truthy and 1 when it is falsy (0, null, undefined or NaN); a
  zoom-level command carrying 0 sets the factor to 1, and the stored factor is never 0.
\<close>

theorem setZoomLevel_truthy_or_one:
  "zoomLevel (setZoomLevel z v) = (if truthy z then z else JNumber (Number 1))
   \<and> zoomLevel (setZoomLevel z v) \<noteq> JNumber (Number 0)
   \<and> zoomLevel (setZoomLevel (JNumber (Number 0)) v) = JNumber (Number 1)
   \<and> zoomLevel (setZoomLevel JNull v) = JNumber (Number 1)
   \<and> zoomLevel (setZoomLevel JUndefined v) = JNumber (Number 1)
   \<and> zoomLevel (setZoomLevel (JNumber NaN) v) = JNumber (Number 1)
   \<and> zoomLevel (dispatch_setZoomLevel [sourceUri, JNumber (Number 0)] v) = JNumber (Number 1)"
  by (auto simp: setZoomLevel_def dispatch_setZoomLevel_def js_or_def arg_def)

section \<open>Properties: scroll sync\<close>

lemma floor_half: "\<lfloor>(of_int n :: rat) / 2\<rfloor> = n div 2"
  using floor_divide_of_int_eq[of n 2, where ?'a = rat] by simp

text \<open>
  C7. \<^verbatim>\<open>syncPreview\<close> follows the ternary snap policy: when the first visible screen
  row is 0 it sends line 0 with ratio 0; otherwise, when the last visible screen row is
  the last screen row of the document, it sends the last buffer row with ratio 1;
  otherwise it sends the buffer row of the midpoint screen row, the floor of
  (first + last) / 2, with ratio 0.5.  The top case comes first: it applies whether or
  not the last visible row is the last row.
\<close>

theorem syncPreview_snap:
  assumes "editor v = Some ed"
  shows "(getFirstVisibleScreenRow ed = 0 \<longrightarrow>
            syncPreview v = postMessage (ChangeTextEditorSelection 0 (Number 0)) v)
       \<and> (getFirstVisibleScreenRow ed \<noteq> 0 \<and> getLastVisibleScreenRow ed = getLastScreenRow ed \<longrightarrow>
            syncPreview v = postMessage (ChangeTextEditorSelection (getLastBufferRow ed) (Number 1)) v)
       \<and> (getFirstVisibleScreenRow ed \<noteq> 0 \<and> getLastVisibleScreenRow ed \<noteq> getLastScreenRow ed \<longrightarrow>
            syncPreview v = postMessage (ChangeTextEditorSelection
               (bufferRowForScreenRow ed
                  ((getFirstVisibleScreenRow ed + getLastVisibleScreenRow ed) div 2))
               (Number (1 / 2))) v)"
  using assms by (simp add: syncPreview_def Let_def floor_half add.commute del: of_int_add)

text \<open>
  The three cases on the example session: rows 3 to 8 of 21 visible (midpoint row 5),
  rows 3 to 8 of 9 visible (the bottom), and rows 0 to 4 visible (the top, although row
  4 is also the last row).
\<close>

theorem syncPreview_snap_witness:
  "editor (example_view\<lparr>editor := Some (example_editor\<lparr>getFirstVisibleScreenRow := 3,
       getLastVisibleScreenRow := 8, getLastScreenRow := 20\<rparr>)\<rparr>)
     = Some (example_editor\<lparr>getFirstVisibleScreenRow := 3,
       getLastVisibleScreenRow := 8, getLastScreenRow := 20\<rparr>)
   \<and> effects (syncPreview (example_view\<lparr>editor := Some (example_editor\<lparr>getFirstVisibleScreenRow := 3,
       getLastVisibleScreenRow := 8, getLastScreenRow := 20\<rparr>)\<rparr>))
     = [PostMessage (ChangeTextEditorSelection 5 (Number (1 / 2)))]
   \<and> effects (syncPreview (example_view\<lparr>editor := Some (example_editor\<lparr>getFirstVisibleScreenRow := 3,
       getLastVisibleScreenRow := 8, getLastScreenRow := 8, getLastBufferRow := 7\<rparr>)\<rparr>))
     = [PostMessage (ChangeTextEditorSelection 7 (Number 1))]
   \<and> effects (syncPreview example_view) = [PostMessage (ChangeTextEditorSelection 0 (Number 0))]"
  using syncPreview_snap[of "example_view\<lparr>editor := Some (example_editor\<lparr>getFirstVisibleScreenRow := 3,
       getLastVisibleScreenRow := 8, getLastScreenRow := 20\<rparr>)\<rparr>"
       "example_editor\<lparr>getFirstVisibleScreenRow := 3,
       getLastVisibleScreenRow := 8, getLastScreenRow := 20\<rparr>"]
    syncPreview_snap[of "example_view\<lparr>editor := Some (example_editor\<lparr>getFirstVisibleScreenRow := 3,
       getLastVisibleScreenRow := 8, getLastScreenRow := 8, getLastBufferRow := 7\<rparr>)\<rparr>"
       "example_editor\<lparr>getFirstVisibleScreenRow := 3,
       getLastVisibleScreenRow := 8, getLastScreenRow := 8, getLastBufferRow := 7\<rparr>"]
    syncPreview_snap[of example_view example_editor]
  by (simp add: example_view_def example_editor_def postMessage_def)

text \<open>
  C1, as the code has it.  For every cursor-position change handled while scroll sync is
  enabled and not suppressed, the \<open>topRatio\<close> sent is the quotient
  (cursor row - first visible row) / (last visible row - first visible row) as JavaScript
  computes it, with no clamp: it lies in [0,1] when the visible range has more than one
  row and the cursor is on a visible row, and is 0 on the first and 1 on the last visible
  row.
\<close>

theorem cursor_topRatio:
  assumes "scrollSync (config v)" and "editorScrollDelay v \<le> now"
  shows "onDidChangeCursorPosition now screenRow bufferRow ed v =
           postMessage (ChangeTextEditorSelection bufferRow
             (js_div (screenRow - getFirstVisibleScreenRow ed)
                     (getLastVisibleScreenRow ed - getFirstVisibleScreenRow ed))) v
       \<and> (getFirstVisibleScreenRow ed < getLastVisibleScreenRow ed
            \<and> getFirstVisibleScreenRow ed \<le> screenRow \<and> screenRow \<le> getLastVisibleScreenRow ed \<longrightarrow>
          in_unit_interval (js_div (screenRow - getFirstVisibleScreenRow ed)
                     (getLastVisibleScreenRow ed - getFirstVisibleScreenRow ed)))
       \<and> (getFirstVisibleScreenRow ed < getLastVisibleScreenRow ed \<longrightarrow>
            js_div (getFirstVisibleScreenRow ed - getFirstVisibleScreenRow ed)
                   (getLastVisibleScreenRow ed - getFirstVisibleScreenRow ed) = Number 0
          \<and> js_div (getLastVisibleScreenRow ed - getFirstVisibleScreenRow ed)
                   (getLastVisibleScreenRow ed - getFirstVisibleScreenRow ed) = Number 1)"
  using assms by (auto simp: onDidChangeCursorPosition_def Let_def js_div_def)

text \<open>The cursor on screen row 3 of the visible rows 0 to 4: the ratio sent is 3/4.\<close>

theorem cursor_topRatio_witness:
  "scrollSync (config example_view) \<and> editorScrollDelay example_view \<le> 1000
   \<and> effects (onDidChangeCursorPosition 1000 3 3 example_editor example_view)
       = [PostMessage (ChangeTextEditorSelection 3 (Number (3 / 4)))]
   \<and> in_unit_interval (Number (3 / 4))"
  using cursor_topRatio[of example_view 1000 3 3 example_editor]
  by (simp add: example_view_def example_editor_def example_config_def postMessage_def js_div_def)

text \<open>
  C1 as stated fails.  With rows 5 to 10 visible, a cursor on screen row 0 sends the
  ratio -1 and a cursor on row 11 sends 6/5: nothing clamps the quotient.  With the
  single row 3 visible and the cursor on it, the ratio sent is NaN, not 0: nothing
  guards the zero divisor.
\<close>

theorem cursor_topRatio_not_clamped:
  "effects (onDidChangeCursorPosition 1000 0 0
      (example_editor\<lparr>getFirstVisibleScreenRow := 5, getLastVisibleScreenRow := 10\<rparr>) example_view)
     = [PostMessage (ChangeTextEditorSelection 0 (Number (- 1)))]
   \<and> \<not> in_unit_interval (Number (- 1))
   \<and> effects (onDidChangeCursorPosition 1000 11 11
      (example_editor\<lparr>getFirstVisibleScreenRow := 5, getLastVisibleScreenRow := 10\<rparr>) example_view)
     = [PostMessage (ChangeTextEditorSelection 11 (Number (6 / 5)))]
   \<and> \<not> in_unit_interval (Number (6 / 5))
   \<and> effects (onDidChangeCursorPosition 1000 3 3
      (example_editor\<lparr>getFirstVisibleScreenRow := 3, getLastVisibleScreenRow := 3\<rparr>) example_view)
     = [PostMessage (ChangeTextEditorSelection 3 NaN)]
   \<and> NaN \<noteq> Number 0"
  by (simp add: onDidChangeCursorPosition_def example_view_def example_editor_def
        example_config_def postMessage_def js_div_def)

section \<open>Properties: task list checkboxes\<close>

lemma find_unchecked: "find_any [''[ ]''] ''- [ ] todo'' = Some (2, ''[ ]'')"
  by (simp add: match_at_def)

lemma find_checked_none: "find_any [''[ ]''] ''- [x] todo'' = None"
  by (simp add: match_at_def)

lemma replace_unchecked: "js_replace ''- [ ] todo'' ''[ ]'' ''[x]'' = ''- [x] todo''"
  by (simp add: js_replace_def js_replace_any_def match_at_def)

lemma replace_checked: "js_replace_any ''- [x] todo'' [''[x]'', ''[X]''] ''[ ]'' = ''- [ ] todo''"
  by (simp add: js_replace_any_def match_at_def)

lemma split_checked: "split_lines (''- [x] todo'' @ [CHR 0x0A]) = [''- [x] todo'', []]"
  and split_unchecked: "split_lines (''- [ ] todo'' @ [CHR 0x0A]) = [''- [ ] todo'', []]"
  by simp_all

lemma setTextInRange_line:
  assumes "d < length ls" and "split_lines (l @ [CHR 0x0A]) = [l, []]"
  shows "setTextInRange ((int d, 0), (int d + 1, 0)) (l @ [CHR 0x0A]) ls
         = (if Suc d < length ls then ls[d := l] else ls[d := l] @ [[]])"
proof (cases "Suc d < length ls")
  case True
  have n: "nat (int d + 1) = Suc d" by simp
  from True have "drop (Suc d) ls = ls ! Suc d # drop (Suc (Suc d)) ls"
    by (simp add: Cons_nth_drop_Suc)
  with True assms show ?thesis
    by (simp add: setTextInRange_def clipPosition_def line_at_def upd_conv_take_nth_drop n)
next
  case False
  with assms have "Suc d = length ls" by simp
  with assms show ?thesis
    by (auto simp: setTextInRange_def clipPosition_def line_at_def upd_conv_take_nth_drop)
qed

text \<open>
  C6. On a document line equal to \<^verbatim>\<open>- [ ] todo\<close> the checkbox handler rewrites the line
  to \<^verbatim>\<open>- [x] todo\<close>; applied again it rewrites the line back to \<^verbatim>\<open>- [ ] todo\<close>; in both
  applications every other line of the document is as it was.  When the line is not the
  last of the buffer the first application changes nothing but that line and the second
  restores the whole session.
\<close>

theorem checkbox_toggle:
  assumes "editor v = Some ed" and "buffer ed = Some ls"
    and "0 \<le> dataLine" and "dataLine < int (length ls)"
    and "ls ! nat dataLine = ''- [ ] todo''"
  shows "\<exists>v1 v2. clickTaskListCheckbox dataLine v = Inr v1
           \<and> clickTaskListCheckbox dataLine v1 = Inr v2
           \<and> buffer_lines v1 ! nat dataLine = ''- [x] todo''
           \<and> buffer_lines v2 ! nat dataLine = ''- [ ] todo''
           \<and> (\<forall>j < length ls. j \<noteq> nat dataLine \<longrightarrow>
                 buffer_lines v1 ! j = ls ! j \<and> buffer_lines v2 ! j = ls ! j)
           \<and> (nat dataLine + 1 < length ls \<longrightarrow>
                 buffer_lines v1 = ls[nat dataLine := ''- [x] todo''] \<and> v2 = v)"
proof -
  define d where "d = nat dataLine"
  with assms have d: "dataLine = int d" "d < length ls" "ls ! d = ''- [ ] todo''" by auto
  define ls1 where "ls1 = (if Suc d < length ls then ls[d := ''- [x] todo'']
                           else ls[d := ''- [x] todo''] @ [[]])"
  define v1 where "v1 = v\<lparr>editor := Some (ed\<lparr>buffer := Some ls1\<rparr>)\<rparr>"
  define ls2 where "ls2 = ls1[d := ''- [ ] todo'']"
  define v2 where "v2 = v1\<lparr>editor := Some (ed\<lparr>buffer := Some ls2\<rparr>)\<rparr>"
  have len1: "d < length ls1" "Suc d < length ls1" "ls1 ! d = ''- [x] todo''"
    using d by (auto simp: ls1_def nth_append)
  have t1: "clickTaskListCheckbox dataLine v = Inr v1"
    using assms(1,2) d setTextInRange_line[OF d(2) split_checked]
    by (simp add: clickTaskListCheckbox_def find_unchecked replace_unchecked v1_def ls1_def
          del: find_any.simps)
  have t2: "clickTaskListCheckbox dataLine v1 = Inr v2"
    using d len1 setTextInRange_line[OF len1(1) split_unchecked]
    by (simp add: clickTaskListCheckbox_def find_checked_none replace_checked v1_def v2_def ls2_def
          del: find_any.simps)
  have b1: "buffer_lines v1 = ls1" and b2: "buffer_lines v2 = ls2"
    by (simp_all add: buffer_lines_def v1_def v2_def)
  have others: "\<forall>j < length ls. j \<noteq> d \<longrightarrow> ls1 ! j = ls ! j \<and> ls2 ! j = ls ! j"
    by (auto simp: ls1_def ls2_def nth_append)
  have ident: "Suc d < length ls \<longrightarrow> ls1 = ls[d := ''- [x] todo''] \<and> v2 = v"
  proof
    assume "Suc d < length ls"
    then have "ls1 = ls[d := ''- [x] todo'']" by (simp add: ls1_def)
    moreover from this d have "ls2 = ls" by (simp add: ls2_def list_update_same_conv)
    moreover have "v\<lparr>editor := Some (ed\<lparr>buffer := Some ls\<rparr>)\<rparr> = v"
      using assms(1,2) by simp
    ultimately show "ls1 = ls[d := ''- [x] todo''] \<and> v2 = v"
      by (simp add: v2_def v1_def)
  qed
  have nd: "nat dataLine = d" by (simp add: d_def)
  have l2: "ls2 ! d = ''- [ ] todo''"
    using len1 by (simp add: ls2_def)
  show ?thesis
    unfolding nd using t1 t2 others ident len1(3) l2
    by (intro exI[of _ v1] exI[of _ v2]) (simp add: b1 b2)
qed

text \<open>The example document has \<^verbatim>\<open>- [ ] todo\<close> on line 2.\<close>

theorem checkbox_toggle_witness:
  "editor example_view = Some example_editor
   \<and> buffer example_editor = Some [''# Notes'', [], ''- [ ] todo'', ''- [x] done'', []]
   \<and> (0::int) \<le> 2 \<and> (2::int) < int (length [''# Notes'', [], ''- [ ] todo'', ''- [x] done'', []])
   \<and> [''# Notes'', [], ''- [ ] todo'', ''- [x] done'', []] ! nat 2 = ''- [ ] todo''
   \<and> (\<exists>v1. clickTaskListCheckbox 2 example_view = Inr v1
          \<and> buffer_lines v1 = [''# Notes'', [], ''- [x] todo'', ''- [x] done'', []]
          \<and> clickTaskListCheckbox 2 v1 = Inr example_view)"
  using checkbox_toggle[of example_view example_editor
          "[''# Notes'', [], ''- [ ] todo'', ''- [x] done'', []]" 2]
  by (auto simp: example_view_def example_editor_def)

text \<open>
  When the line is the last of the buffer, the range the handler writes ends past the
  buffer and is clipped to its end: the line feed the handler appends starts a new,
  empty last line.
\<close>

lemma checkbox_toggle_last_line:
  "map_sum id buffer_lines
     (clickTaskListCheckbox 0 (example_view\<lparr>editor := Some (example_editor\<lparr>buffer := Some [''- [ ] todo'']\<rparr>)\<rparr>))
   = Inr [''- [x] todo'', []]"
  by (simp add: clickTaskListCheckbox_def example_view_def example_editor_def buffer_lines_def
        js_replace_def js_replace_any_def match_at_def setTextInRange_def clipPosition_def line_at_def)

section \<open>Properties: upload hints\<close>

lemma split_lines_not_Nil: "split_lines s \<noteq> []"
  by (induction s) (simp_all split: list.split)

lemma glue_Nil: "parts \<noteq> [] \<Longrightarrow> glue [] parts [] = parts"
proof (cases parts)
  case Nil
  assume "parts \<noteq> []"
  with Nil show ?thesis by simp
next
  case (Cons l ps)
  show ?thesis
  proof (cases ps)
    case Nil
    with Cons show ?thesis by simp
  next
    case (Cons m ms)
    have "butlast (m # ms) @ [last (m # ms)] = m # ms"
      by (rule append_butlast_last_id) simp
    with Cons \<open>parts = l # ps\<close> show ?thesis
      by (simp del: butlast.simps last.simps)
  qed
qed

lemma setTextInRange_whole_line:
  assumes "r < length ls"
  shows "setTextInRange ((int r, 0), (int r, int (length (ls ! r)))) txt ls
         = take r ls @ split_lines txt @ drop (Suc r) ls"
  using assms
  by (simp add: setTextInRange_def clipPosition_def line_at_def glue_Nil split_lines_not_Nil)

lemma replaceHint_in_range:
  assumes "editor v = Some ed" and "buffer ed = Some ls" and "0 \<le> i" and "i < int (length ls)"
  shows "replaceHint i hint w v =
           (if 0 \<le> indexOf (ls ! nat i) hint
            then Inr (True, v\<lparr>editor := Some (ed\<lparr>buffer := Some
                   (take (nat i) ls @ split_lines (js_replace (ls ! nat i) hint w)
                    @ drop (Suc (nat i)) ls)\<rparr>)\<rparr>)
            else Inr (False, v))"
proof -
  define r where "r = nat i"
  with assms have r: "i = int r" "r < length ls" by auto
  show ?thesis
    unfolding r(1)
    using assms(1,2) r(2) setTextInRange_whole_line[OF r(2), of "js_replace (ls ! r) hint w"]
    by (simp add: replaceHint_def Let_def)
qed

lemma scan_hint_none:
  assumes "editor v = Some ed" and "buffer ed = Some ls"
    and "0 \<le> i" and "hi < int (length ls)"
    and "\<And>j. i \<le> j \<Longrightarrow> j \<le> hi \<Longrightarrow> indexOf (ls ! nat j) hint < 0"
  shows "scan_hint i hi hint w v = Inr v"
  using assms
proof (induction "nat (hi + 1 - i)" arbitrary: i)
  case 0
  then show ?case by (subst scan_hint.simps) simp
next
  case (Suc n)
  then have le: "i \<le> hi" by simp
  then have "indexOf (ls ! nat i) hint < 0" by (simp add: Suc.prems(5))
  with le Suc.prems(1-4) have "replaceHint i hint w v = Inr (False, v)"
    by (simp add: replaceHint_in_range)
  moreover have "scan_hint (i + 1) hi hint w v = Inr v"
    using Suc.hyps(2) Suc.prems by (intro Suc.hyps(1)) auto
  ultimately show ?case using le by (subst scan_hint.simps) simp
qed

lemma scan_hint_found:
  assumes "editor v = Some ed" and "buffer ed = Some ls"
    and "0 \<le> i" and "i \<le> k" and "k \<le> hi" and "k < int (length ls)"
    and "\<And>j. i \<le> j \<Longrightarrow> j < k \<Longrightarrow> indexOf (ls ! nat j) hint < 0"
    and "0 \<le> indexOf (ls ! nat k) hint"
  shows "scan_hint i hi hint w v =
           Inr (v\<lparr>editor := Some (ed\<lparr>buffer := Some
                   (take (nat k) ls @ split_lines (js_replace (ls ! nat k) hint w)
                    @ drop (Suc (nat k)) ls)\<rparr>)\<rparr>)"
  using assms
proof (induction "nat (k - i)" arbitrary: i)
  case 0
  then have "i = k" by simp
  with 0 show ?case by (subst scan_hint.simps) (simp add: replaceHint_in_range)
next
  case (Suc n)
  then have lt: "i < k" by simp
  then have "indexOf (ls ! nat i) hint < 0" by (simp add: Suc.prems(7))
  with lt Suc.prems(1-6) have "replaceHint i hint w v = Inr (False, v)"
    by (simp add: replaceHint_in_range)
  moreover have "scan_hint (i + 1) hi hint w v =
           Inr (v\<lparr>editor := Some (ed\<lparr>buffer := Some
                   (take (nat k) ls @ split_lines (js_replace (ls ! nat k) hint w)
                    @ drop (Suc (nat k)) ls)\<rparr>)\<rparr>)"
    using Suc.hyps(2) Suc.prems lt by (intro Suc.hyps(1)) auto
  moreover from lt Suc.prems have "i \<le> hi" by simp
  ultimately show ?case by (subst scan_hint.simps) simp
qed

text \<open>
  C4, as the code has it.  When an upload resolves, \<^verbatim>\<open>setUploadedImageURL\<close> first tries
  the recorded insertion line, a line the document still has.  If the token is not on
  that line and the window starts inside the document (\<open>bufferRow\<close> is at least 20), it
  scans the lines from \<open>bufferRow - 20\<close> upward in ascending order and replaces the token
  in the first line of that order that holds it and is at most \<open>bufferRow + 20\<close>: the
  lowest-numbered one, not the nearest.  If the whole window lies inside the document
  and no line of it holds the token, the call changes nothing and raises no error.
\<close>

theorem setUploadedImageURL_scan:
  assumes "editor v = Some ed" and "buffer ed = Some ls"
    and "0 \<le> bufferRow" and "bufferRow < int (length ls)"
  shows "(0 \<le> indexOf (ls ! nat bufferRow) hint \<longrightarrow>
            setUploadedImageURL imageFileName url hint bufferRow v =
              Inr (v\<lparr>editor := Some (ed\<lparr>buffer := Some
                (take (nat bufferRow) ls
                 @ split_lines (js_replace (ls ! nat bufferRow) hint
                      (''!['' @ description_of imageFileName @ '']('' @ url @ '')''))
                 @ drop (Suc (nat bufferRow)) ls)\<rparr>)\<rparr>))
       \<and> (\<forall>k. indexOf (ls ! nat bufferRow) hint < 0
              \<and> 20 \<le> bufferRow
              \<and> bufferRow - 20 \<le> k \<and> k \<le> bufferRow + 20 \<and> k < int (length ls)
              \<and> 0 \<le> indexOf (ls ! nat k) hint
              \<and> (\<forall>j. bufferRow - 20 \<le> j \<and> j < k \<longrightarrow> indexOf (ls ! nat j) hint < 0) \<longrightarrow>
            setUploadedImageURL imageFileName url hint bufferRow v =
              Inr (v\<lparr>editor := Some (ed\<lparr>buffer := Some
                (take (nat k) ls
                 @ split_lines (js_replace (ls ! nat k) hint
                      (''!['' @ description_of imageFileName @ '']('' @ url @ '')''))
                 @ drop (Suc (nat k)) ls)\<rparr>)\<rparr>))
       \<and> (20 \<le> bufferRow \<and> bufferRow + 20 < int (length ls)
            \<and> (\<forall>j. bufferRow - 20 \<le> j \<and> j \<le> bufferRow + 20 \<longrightarrow> indexOf (ls ! nat j) hint < 0) \<longrightarrow>
            setUploadedImageURL imageFileName url hint bufferRow v = Inr v)"
proof (intro conjI allI impI)
  assume "0 \<le> indexOf (ls ! nat bufferRow) hint"
  with assms show "setUploadedImageURL imageFileName url hint bufferRow v =
              Inr (v\<lparr>editor := Some (ed\<lparr>buffer := Some
                (take (nat bufferRow) ls
                 @ split_lines (js_replace (ls ! nat bufferRow) hint
                      (''!['' @ description_of imageFileName @ '']('' @ url @ '')''))
                 @ drop (Suc (nat bufferRow)) ls)\<rparr>)\<rparr>)"
    by (simp add: setUploadedImageURL_def replaceHint_in_range)
next
  fix k
  assume k: "indexOf (ls ! nat bufferRow) hint < 0
              \<and> 20 \<le> bufferRow
              \<and> bufferRow - 20 \<le> k \<and> k \<le> bufferRow + 20 \<and> k < int (length ls)
              \<and> 0 \<le> indexOf (ls ! nat k) hint
              \<and> (\<forall>j. bufferRow - 20 \<le> j \<and> j < k \<longrightarrow> indexOf (ls ! nat j) hint < 0)"
  with assms have "replaceHint bufferRow hint
      (''!['' @ description_of imageFileName @ '']('' @ url @ '')'') v = Inr (False, v)"
    by (simp add: replaceHint_in_range)
  moreover have "scan_hint (bufferRow - 20) (bufferRow + 20) hint
      (''!['' @ description_of imageFileName @ '']('' @ url @ '')'') v
      = Inr (v\<lparr>editor := Some (ed\<lparr>buffer := Some
                (take (nat k) ls
                 @ split_lines (js_replace (ls ! nat k) hint
                      (''!['' @ description_of imageFileName @ '']('' @ url @ '')''))
                 @ drop (Suc (nat k)) ls)\<rparr>)\<rparr>)"
    using assms(1,2) k by (intro scan_hint_found) auto
  ultimately show "setUploadedImageURL imageFileName url hint bufferRow v =
              Inr (v\<lparr>editor := Some (ed\<lparr>buffer := Some
                (take (nat k) ls
                 @ split_lines (js_replace (ls ! nat k) hint
                      (''!['' @ description_of imageFileName @ '']('' @ url @ '')''))
                 @ drop (Suc (nat k)) ls)\<rparr>)\<rparr>)"
    by (simp add: setUploadedImageURL_def)
next
  assume none: "20 \<le> bufferRow \<and> bufferRow + 20 < int (length ls)
            \<and> (\<forall>j. bufferRow - 20 \<le> j \<and> j \<le> bufferRow + 20 \<longrightarrow> indexOf (ls ! nat j) hint < 0)"
  then have "indexOf (ls ! nat bufferRow) hint < 0" by simp
  with assms have "replaceHint bufferRow hint
      (''!['' @ description_of imageFileName @ '']('' @ url @ '')'') v = Inr (False, v)"
    by (simp add: replaceHint_in_range)
  moreover have "scan_hint (bufferRow - 20) (bufferRow + 20) hint
      (''!['' @ description_of imageFileName @ '']('' @ url @ '')'') v = Inr v"
    using assms(1,2) none by (intro scan_hint_none) auto
  ultimately show "setUploadedImageURL imageFileName url hint bufferRow v = Inr v"
    by (simp add: setUploadedImageURL_def)
qed

text \<open>
  Outside these conditions the scan reads a line the document does not have.  With the
  token off an insertion line below 20 the first line the scan reads is a negative one,
  and the call throws before any line is examined.
\<close>

lemma setUploadedImageURL_throws_before_document:
  assumes "editor v = Some ed" and "buffer ed = Some ls"
    and "0 \<le> bufferRow" and "bufferRow < int (length ls)" and "bufferRow < 20"
    and "indexOf (ls ! nat bufferRow) hint < 0"
  shows "setUploadedImageURL imageFileName url hint bufferRow v
         = Inl (TypeError ''Cannot read property indexOf of undefined'')"
proof -
  let ?w = "''!['' @ description_of imageFileName @ '']('' @ url @ '')''"
  from assms have "replaceHint bufferRow hint ?w v = Inr (False, v)"
    by (simp add: replaceHint_in_range)
  moreover from assms(1,2,5)
  have "replaceHint (bufferRow - 20) hint ?w v
        = Inl (TypeError ''Cannot read property indexOf of undefined'')"
    by (simp add: replaceHint_def)
  then have "scan_hint (bufferRow - 20) (bufferRow + 20) hint ?w v
        = Inl (TypeError ''Cannot read property indexOf of undefined'')"
    by (subst scan_hint.simps) simp
  ultimately show ?thesis
    by (simp add: setUploadedImageURL_def)
qed

lemma index_text: "indexOf ''text'' example_hint = - 1"
  by (simp add: indexOf_def example_hint_def match_at_def)

lemma index_hint_line: "indexOf hint_line example_hint = 4"
  by (simp add: indexOf_def hint_line_def example_hint_def match_at_def)

lemma index_second_hint_line: "indexOf second_hint_line example_hint = 6"
  by (simp add: indexOf_def second_hint_line_def example_hint_def match_at_def)

lemma description_of_photo: "description_of ''photo.png'' = ''photo''"
  by (simp add: description_of_def js_slice_def)

lemma hint_line_replaced:
  "split_lines (js_replace hint_line example_hint ''![photo](https://i.imgur.com/a1.png)'')
   = [''see ![photo](https://i.imgur.com/a1.png) here'']"
  by (simp add: js_replace_def js_replace_any_def hint_line_def example_hint_def match_at_def)

lemma long_document_nth:
  "j < 22 \<Longrightarrow> long_document ! j = ''text''"
  "long_document ! 22 = hint_line"
  "length long_document = 43"
  "take 22 long_document = replicate 22 ''text''"
  "drop 23 long_document = replicate 20 ''text''"
  by (simp_all add: long_document_def nth_append)

lemma twice_document_nth:
  "j < 18 \<Longrightarrow> twice_document ! j = ''text''"
  "twice_document ! 18 = hint_line"
  "twice_document ! 19 = ''text''"
  "twice_document ! 20 = ''text''"
  "twice_document ! 21 = second_hint_line"
  "length twice_document = 22"
  "take 18 twice_document = replicate 18 ''text''"
  "drop 19 twice_document = [''text'', ''text'', second_hint_line]"
  by (simp_all add: twice_document_def nth_append)

text \<open>
  Three documents.  The hint was inserted on line 20 of the 43-line document and now
  stands on line 22: the scan from line 0 finds it there and replaces it.  The hint
  stands on the insertion line 3 of a five-line document: it is replaced there.  A
  43-line document without the hint and the insertion line 21: nothing changes.
\<close>

theorem setUploadedImageURL_scan_witness:
  "editor (with_document long_document) = Some (example_editor\<lparr>buffer := Some long_document\<rparr>)
   \<and> buffer (example_editor\<lparr>buffer := Some long_document\<rparr>) = Some long_document
   \<and> (0::int) \<le> 20 \<and> (20::int) < int (length long_document)
   \<and> setUploadedImageURL ''photo.png'' ''https://i.imgur.com/a1.png'' example_hint 20
        (with_document long_document)
      = Inr (with_document (replicate 22 ''text''
              @ [''see ![photo](https://i.imgur.com/a1.png) here''] @ replicate 20 ''text''))
   \<and> (3::int) < int (length [''# Notes'', [], ''- [ ] todo'', hint_line, []])
   \<and> setUploadedImageURL ''photo.png'' ''https://i.imgur.com/a1.png'' example_hint 3
        (with_document [''# Notes'', [], ''- [ ] todo'', hint_line, []])
      = Inr (with_document [''# Notes'', [], ''- [ ] todo'',
               ''see ![photo](https://i.imgur.com/a1.png) here'', []])
   \<and> (21::int) + 20 < int (length (replicate 43 ''text''))
   \<and> setUploadedImageURL ''photo.png'' ''https://i.imgur.com/a1.png'' example_hint 21
        (with_document (replicate 43 ''text''))
      = Inr (with_document (replicate 43 ''text''))"
proof -
  let ?v = "with_document long_document"
  let ?ed = "example_editor\<lparr>buffer := Some long_document\<rparr>"
  have h: "editor ?v = Some ?ed" "buffer ?ed = Some long_document"
    "(0::int) \<le> 20" "(20::int) < int (length long_document)"
    by (simp_all add: with_document_def long_document_nth)
  have below: "indexOf (long_document ! nat j) example_hint < 0" if "0 \<le> j" "j < 22" for j :: int
  proof -
    from that have "nat j < 22" by simp
    then show ?thesis by (simp add: long_document_nth index_text)
  qed
  have pre: "indexOf (long_document ! nat 20) example_hint < 0
     \<and> (20::int) \<le> 20
     \<and> (20::int) - 20 \<le> 22 \<and> (22::int) \<le> 20 + 20 \<and> (22::int) < int (length long_document)
     \<and> 0 \<le> indexOf (long_document ! nat 22) example_hint
     \<and> (\<forall>j. (20::int) - 20 \<le> j \<and> j < 22 \<longrightarrow> indexOf (long_document ! nat j) example_hint < 0)"
    by (intro conjI allI impI) (simp_all add: below long_document_nth index_hint_line index_text)
  note inst = setUploadedImageURL_scan[OF h, of example_hint "''photo.png''"
      "''https://i.imgur.com/a1.png''", THEN conjunct2, THEN conjunct1, THEN spec, of 22,
      THEN mp, OF pre]
  have "with_document long_document\<lparr>editor := Some (?ed\<lparr>buffer := Some
           (replicate 22 ''text'' @ [''see ![photo](https://i.imgur.com/a1.png) here'']
            @ replicate 20 ''text'')\<rparr>)\<rparr>
        = with_document (replicate 22 ''text''
              @ [''see ![photo](https://i.imgur.com/a1.png) here''] @ replicate 20 ''text'')"
    by (simp add: with_document_def)
  with inst have scan: "setUploadedImageURL ''photo.png'' ''https://i.imgur.com/a1.png'' example_hint 20
        (with_document long_document)
      = Inr (with_document (replicate 22 ''text''
              @ [''see ![photo](https://i.imgur.com/a1.png) here''] @ replicate 20 ''text''))"
    by (simp add: long_document_nth hint_line_replaced description_of_photo)
  \<comment> \<open>the token on the insertion line of a five-line document\<close>
  let ?ls = "[''# Notes'', [], ''- [ ] todo'', hint_line, []]"
  let ?ed5 = "example_editor\<lparr>buffer := Some ?ls\<rparr>"
  have h5: "editor (with_document ?ls) = Some ?ed5" "buffer ?ed5 = Some ?ls"
    "(0::int) \<le> 3" "(3::int) < int (length ?ls)"
    by (simp_all add: with_document_def)
  have on: "0 \<le> indexOf (?ls ! nat 3) example_hint"
    by (simp add: index_hint_line)
  note inst5 = setUploadedImageURL_scan[OF h5, of example_hint "''photo.png''"
      "''https://i.imgur.com/a1.png''", THEN conjunct1, THEN mp, OF on]
  have line: "setUploadedImageURL ''photo.png'' ''https://i.imgur.com/a1.png'' example_hint 3
        (with_document ?ls)
      = Inr (with_document [''# Notes'', [], ''- [ ] todo'',
               ''see ![photo](https://i.imgur.com/a1.png) here'', []])"
    using inst5 by (simp add: hint_line_replaced description_of_photo with_document_def)
  \<comment> \<open>no line of the window holds the token\<close>
  let ?clean = "replicate 43 ''text''"
  let ?edc = "example_editor\<lparr>buffer := Some ?clean\<rparr>"
  have hc: "editor (with_document ?clean) = Some ?edc" "buffer ?edc = Some ?clean"
    "(0::int) \<le> 21" "(21::int) < int (length ?clean)"
    by (simp_all add: with_document_def)
  have miss: "indexOf (?clean ! nat j) example_hint < 0" if "0 \<le> j" "j \<le> 41" for j :: int
  proof -
    from that have "nat j < 43" by simp
    then show ?thesis by (simp add: index_text)
  qed
  have prec: "(20::int) \<le> 21 \<and> (21::int) + 20 < int (length ?clean)
     \<and> (\<forall>j. (21::int) - 20 \<le> j \<and> j \<le> 21 + 20 \<longrightarrow> indexOf (?clean ! nat j) example_hint < 0)"
    by (intro conjI allI impI) (simp_all add: miss)
  note noop = setUploadedImageURL_scan[OF hc, of example_hint "''photo.png''"
      "''https://i.imgur.com/a1.png''", THEN conjunct2, THEN conjunct2, THEN mp, OF prec]
  have len5: "(3::int) < int (length ?ls)" by simp
  have lenc: "(21::int) + 20 < int (length ?clean)" by simp
  show ?thesis
    by (intro conjI h scan len5 line lenc noop)
qed

text \<open>
  C4 as stated fails.  In the 22-line document the token stands on line 21, next to the
  insertion line 20, and on line 18, not on lines 19 and 20: a search that moves outward
  from line 20 meets line 21 first, and the code replaces the token on line 18.  And
  with the insertion line 2 of a five-line document the window starts before the
  document: reading line -18 throws, whether the token has moved to line 3 or is gone,
  so the token on line 3 is not replaced and the call is not a silent no-op.
\<close>

theorem setUploadedImageURL_not_outward:
  "0 \<le> indexOf (twice_document ! 21) example_hint
   \<and> 0 \<le> indexOf (twice_document ! 18) example_hint
   \<and> indexOf (twice_document ! 19) example_hint < 0
   \<and> indexOf (twice_document ! 20) example_hint < 0
   \<and> map_sum id buffer_lines
       (setUploadedImageURL ''photo.png'' ''https://i.imgur.com/a1.png'' example_hint 20
          (with_document twice_document))
     = Inr (replicate 18 ''text'' @ [''see ![photo](https://i.imgur.com/a1.png) here'',
             ''text'', ''text'', second_hint_line])
   \<and> setUploadedImageURL ''photo.png'' ''https://i.imgur.com/a1.png'' example_hint 2
        (with_document [''# Notes'', [], ''- [ ] todo'', hint_line, []])
     = Inl (TypeError ''Cannot read property indexOf of undefined'')
   \<and> setUploadedImageURL ''photo.png'' ''https://i.imgur.com/a1.png'' example_hint 2
        (with_document [''# Notes'', [], ''- [ ] todo'', ''- [x] done'', []])
     = Inl (TypeError ''Cannot read property indexOf of undefined'')"
proof -
  let ?v = "with_document twice_document"
  let ?ed = "example_editor\<lparr>buffer := Some twice_document\<rparr>"
  let ?w = "''![photo](https://i.imgur.com/a1.png)''"
  have h: "editor ?v = Some ?ed" "buffer ?ed = Some twice_document"
    by (simp_all add: with_document_def)
  have below: "indexOf (twice_document ! nat j) example_hint < 0" if "0 \<le> j" "j < 18" for j :: int
  proof -
    from that have "nat j < 18" by simp
    then show ?thesis by (simp add: twice_document_nth index_text)
  qed
  have first: "replaceHint 20 example_hint ?w ?v = Inr (False, ?v)"
    using replaceHint_in_range[OF h, of 20 example_hint ?w]
    by (simp add: twice_document_nth index_text)
  have "scan_hint 0 40 example_hint ?w ?v =
      Inr (?v\<lparr>editor := Some (?ed\<lparr>buffer := Some
                   (take (nat 18) twice_document
                    @ split_lines (js_replace (twice_document ! nat 18) example_hint ?w)
                    @ drop (Suc (nat 18)) twice_document)\<rparr>)\<rparr>)"
    by (rule scan_hint_found[OF h]) (simp_all add: twice_document_nth index_hint_line index_text)
  then have scan: "map_sum id buffer_lines (scan_hint 0 40 example_hint ?w ?v)
     = Inr (replicate 18 ''text'' @ [''see ![photo](https://i.imgur.com/a1.png) here'',
             ''text'', ''text'', second_hint_line])"
    by (simp add: twice_document_nth hint_line_replaced buffer_lines_def with_document_def)
  have a: "map_sum id buffer_lines
       (setUploadedImageURL ''photo.png'' ''https://i.imgur.com/a1.png'' example_hint 20 ?v)
     = Inr (replicate 18 ''text'' @ [''see ![photo](https://i.imgur.com/a1.png) here'',
             ''text'', ''text'', second_hint_line])"
    using first scan by (simp add: setUploadedImageURL_def description_of_photo Let_def)
  have nohint: "indexOf ''- [ ] todo'' example_hint = - 1"
    by (simp add: indexOf_def example_hint_def match_at_def)
  have b: "setUploadedImageURL ''photo.png'' ''https://i.imgur.com/a1.png'' example_hint 2
        (with_document [''# Notes'', [], ''- [ ] todo'', hint_line, []])
     = Inl (TypeError ''Cannot read property indexOf of undefined'')"
    by (simp add: setUploadedImageURL_def replaceHint_def with_document_def example_view_def
        nohint scan_hint.simps[of "- 18" 22])
  have c: "setUploadedImageURL ''photo.png'' ''https://i.imgur.com/a1.png'' example_hint 2
        (with_document [''# Notes'', [], ''- [ ] todo'', ''- [x] done'', []])
     = Inl (TypeError ''Cannot read property indexOf of undefined'')"
    by (simp add: setUploadedImageURL_def replaceHint_def with_document_def example_view_def
        nohint scan_hint.simps[of "- 18" 22])
  show ?thesis
    using a b c by (simp add: twice_document_nth index_hint_line index_second_hint_line index_text)
qed

section \<open>Properties: pasting an image file\<close>

lemma lastIndexOf_lower: "- 1 \<le> lastIndexOf s c"
  by (induction s) (auto simp: Let_def)

lemma lastIndexOf_upper: "lastIndexOf s c < int (length s)"
  by (induction s) (auto simp: Let_def)

lemma lastIndexOf_nth: "0 \<le> lastIndexOf s c \<Longrightarrow> s ! nat (lastIndexOf s c) = c"
proof (induction s)
  case Nil
  then show ?case by simp
next
  case (Cons x xs)
  show ?case
  proof (cases "0 \<le> lastIndexOf xs c")
    case True
    with Cons.IH show ?thesis by (simp add: Let_def nat_add_distrib)
  next
    case False
    with Cons.prems show ?thesis by (simp add: Let_def split: if_splits)
  qed
qed

lemma lastIndexOf_after:
  "0 \<le> lastIndexOf s c \<Longrightarrow> c \<notin> set (drop (Suc (nat (lastIndexOf s c))) s)"
proof (induction s)
  case Nil
  then show ?case by simp
next
  case (Cons x xs)
  show ?case
  proof (cases "0 \<le> lastIndexOf xs c")
    case True
    with Cons.IH show ?thesis by (simp add: Let_def nat_add_distrib)
  next
    case False
    have "c \<notin> set xs" using False
    proof (induction xs)
      case Nil
      then show ?case by simp
    next
      case (Cons y ys)
      then show ?case by (auto simp: Let_def split: if_splits)
    qed
    with False Cons.prems show ?thesis by (simp add: Let_def split: if_splits)
  qed
qed

lemma js_slice_take: "0 \<le> n \<Longrightarrow> n \<le> int (length s) \<Longrightarrow> js_slice s 0 n = take (nat n) s"
  by (simp add: js_slice_def Let_def)

lemma js_slice_drop:
  "0 \<le> n \<Longrightarrow> n \<le> int (length s) \<Longrightarrow> js_slice s n (int (length s)) = drop (nat n) s"
  by (simp add: js_slice_def Let_def)

lemma existed_rename_dot:
  assumes "0 < lastIndexOf name (CHR ''.'')"
  shows "existed_rename name uid =
           (take (nat (lastIndexOf name (CHR ''.''))) name,
            take (nat (lastIndexOf name (CHR ''.''))) name @ uid
              @ drop (nat (lastIndexOf name (CHR ''.''))) name)"
  using assms lastIndexOf_upper[of name "CHR ''.''"]
  by (simp add: existed_rename_def Let_def js_slice_take js_slice_drop)

text \<open>
  C8. When \<^verbatim>\<open>pasteImageFile\<close> finds the destination file present and the last dot of the
  file name is at a positive offset, the file is copied under the name stem, then
  \<^verbatim>\<open>_\<close> and the random string, then the original extension: the extension (from the last
  dot on) ends the new name, the new name differs from the original one, and the
  description of the image reference inserted into the document is the stem.
\<close>

theorem pasteImageFile_collision:
  assumes "editor v = Some ed"
    and "imageFolderPath (config v) = folder"
    and "(if take 1 folder = ''/'' then Some (resolve P proj (''.'' @ folder))
          else map_option (\<lambda>p. resolve P (dirname P p) folder) (getPath ed)) = Some dir"
    and "basename P imageFilePath = name"
    and "0 < lastIndexOf name (CHR ''.'')"
    and "take (nat (lastIndexOf name (CHR ''.''))) name = stem"
    and "drop (nat (lastIndexOf name (CHR ''.''))) name = ext"
    and "stem @ ''_'' @ rnd @ ext = newName"
  shows "pasteImageFile P proj Existed rnd imageFilePath v =
           Inr (v\<lparr>effects := effects v @
                  [CopyFile imageFilePath (resolve P dir newName),
                   AddInfo (''Image '' @ newName @ '' has been copied to folder '' @ dir),
                   InsertText (''!['' @ stem @ '']('' @
                     (if 0 \<le> indexOf (folder @ ''/'' @ newName) '' ''
                      then ''<'' @ folder @ ''/'' @ newName @ ''>''
                      else folder @ ''/'' @ newName) @ '')'')]\<rparr>)
       \<and> name = stem @ ext \<and> stem \<noteq> [] \<and> hd ext = CHR ''.'' \<and> CHR ''.'' \<notin> set (tl ext)
       \<and> suffix ext newName \<and> newName \<noteq> name"
proof -
  let ?n = "nat (lastIndexOf name (CHR ''.''))"
  note defs = assms(6)[symmetric] assms(7)[symmetric] assms(8)[symmetric]
  from assms(5) have pos: "0 \<le> lastIndexOf name (CHR ''.'')" "0 < ?n" by simp_all
  have lt: "?n < length name"
    using lastIndexOf_upper[of name "CHR ''.''"] pos by simp
  have split: "name = stem @ ext" by (simp add: defs)
  have stem: "stem \<noteq> []" using pos lt by (auto simp: defs)
  have ext: "ext = CHR ''.'' # drop (Suc ?n) name"
    using lastIndexOf_nth[OF pos(1)] Cons_nth_drop_Suc[OF lt, symmetric] by (simp add: defs)
  have last: "CHR ''.'' \<notin> set (tl ext)"
    using lastIndexOf_after[OF pos(1)] by (simp add: ext)
  have ren: "existed_rename name (''_'' @ rnd) = (stem, newName)"
    using existed_rename_dot[OF assms(5), of "''_'' @ rnd"] by (simp add: defs)
  have diff: "newName \<noteq> name"
  proof
    assume "newName = name"
    then have "length newName = length name" by simp
    then show False by (simp add: defs(3) split)
  qed
  have suf: "suffix ext newName"
    by (simp add: defs(3) suffix_def)
  have run: "pasteImageFile P proj Existed rnd imageFilePath v =
           Inr (v\<lparr>effects := effects v @
                  [CopyFile imageFilePath (resolve P dir newName),
                   AddInfo (''Image '' @ newName @ '' has been copied to folder '' @ dir),
                   InsertText (''!['' @ stem @ '']('' @
                     (if 0 \<le> indexOf (folder @ ''/'' @ newName) '' ''
                      then ''<'' @ folder @ ''/'' @ newName @ ''>''
                      else folder @ ''/'' @ newName) @ '')'')]\<rparr>)"
    using assms(1) assms(3) ren
    by (simp add: pasteImageFile_def Let_def assms(2) assms(4) del: find_any.simps)
  have hd: "hd ext = CHR ''.''" by (simp add: ext)
  show ?thesis
    by (intro conjI run split stem hd last suf diff)
qed

text \<open>
  Pasting \<^verbatim>\<open>/tmp/photo.png\<close> when \<^verbatim>\<open>photo.png\<close> is already in the asset folder: the copy is
  named \<^verbatim>\<open>photo_k3j2h1x9q.png\<close> and the description is \<^verbatim>\<open>photo\<close>.
\<close>

theorem pasteImageFile_collision_witness:
  "editor example_view = Some example_editor
   \<and> imageFolderPath (config example_view) = ''/assets''
   \<and> (if take 1 ''/assets'' = ''/'' then Some (resolve posix_path ''/home/user'' (''.'' @ ''/assets''))
        else map_option (\<lambda>p. resolve posix_path (dirname posix_path p) ''/assets'')
               (getPath example_editor)) = Some ''/home/user/assets''
   \<and> basename posix_path ''/tmp/photo.png'' = ''photo.png''
   \<and> 0 < lastIndexOf ''photo.png'' (CHR ''.'')
   \<and> take (nat (lastIndexOf ''photo.png'' (CHR ''.''))) ''photo.png'' = ''photo''
   \<and> drop (nat (lastIndexOf ''photo.png'' (CHR ''.''))) ''photo.png'' = ''.png''
   \<and> ''photo'' @ ''_'' @ ''k3j2h1x9q'' @ ''.png'' = ''photo_k3j2h1x9q.png''
   \<and> pasteImageFile posix_path ''/home/user'' Existed ''k3j2h1x9q'' ''/tmp/photo.png'' example_view
       = Inr (example_view\<lparr>effects :=
           [CopyFile ''/tmp/photo.png'' ''/home/user/assets/photo_k3j2h1x9q.png'',
            AddInfo ''Image photo_k3j2h1x9q.png has been copied to folder /home/user/assets'',
            InsertText ''![photo](/assets/photo_k3j2h1x9q.png)'']\<rparr>)"
proof -
  have h: "editor example_view = Some example_editor"
    "imageFolderPath (config example_view) = ''/assets''"
    "(if take 1 ''/assets'' = ''/'' then Some (resolve posix_path ''/home/user'' (''.'' @ ''/assets''))
        else map_option (\<lambda>p. resolve posix_path (dirname posix_path p) ''/assets'')
               (getPath example_editor)) = Some ''/home/user/assets''"
    "basename posix_path ''/tmp/photo.png'' = ''photo.png''"
    "0 < lastIndexOf ''photo.png'' (CHR ''.'')"
    "take (nat (lastIndexOf ''photo.png'' (CHR ''.''))) ''photo.png'' = ''photo''"
    "drop (nat (lastIndexOf ''photo.png'' (CHR ''.''))) ''photo.png'' = ''.png''"
    "''photo'' @ ''_'' @ ''k3j2h1x9q'' @ ''.png'' = ''photo_k3j2h1x9q.png''"
    by (simp_all add: example_view_def example_config_def posix_path_def)
  have sp: "indexOf ''/assets/photo_k3j2h1x9q.png'' '' '' = - 1"
    by (simp add: indexOf_def match_at_def)
  have e: "effects example_view = []" by (simp add: example_view_def)
  have r: "resolve posix_path ''/home/user/assets'' ''photo_k3j2h1x9q.png''
           = ''/home/user/assets/photo_k3j2h1x9q.png''"
    by (simp add: posix_path_def)
  from pasteImageFile_collision[OF h, THEN conjunct1]
  have run: "pasteImageFile posix_path ''/home/user'' Existed ''k3j2h1x9q'' ''/tmp/photo.png'' example_view
       = Inr (example_view\<lparr>effects :=
           [CopyFile ''/tmp/photo.png'' ''/home/user/assets/photo_k3j2h1x9q.png'',
            AddInfo ''Image photo_k3j2h1x9q.png has been copied to folder /home/user/assets'',
            InsertText ''![photo](/assets/photo_k3j2h1x9q.png)'']\<rparr>)"
    by (simp add: sp e r del: find_any.simps)
  show ?thesis
    by (intro conjI h run)
qed

section \<open>Properties: the render decision\<close>

text \<open>
  C2. For every render of \<^verbatim>\<open>renderMarkdown\<close> whose parse returns a dependency list that
  is a permutation of the session's stored list, and whose front matter has no
  presentation-mode flag, the decision is the incremental patch: the \<^verbatim>\<open>updateHTML\<close>
  message is sent, \<^verbatim>\<open>loadPreview\<close> is not called and the stored list stays.  The lists
  \<open>[a, b]\<close> and \<open>[b, a]\<close> compare as equal.
\<close>

theorem renderMarkdown_permutation_patch:
  assumes "editor v = Some ed"
    and "mset (pr_JSAndCssFiles r) = mset (JSAndCssFiles v)"
    and "\<not> truthy (yaml_isPresentationMode (pr_yamlConfig r))"
  shows "renderMarkdown False (Resolved r) v =
           Inr (v\<lparr>effects := effects v @
                  [PostMessage StartParsingMarkdown,
                   PostMessage (UpdateHTML (pr_html r) (pr_tocHTML r) (getLineCount ed) (getPath ed)
                     (js_or (yaml_id (pr_yamlConfig r)) (JString []))
                     (js_or (yaml_class (pr_yamlConfig r)) (JString [])))]\<rparr>)
       \<and> isArrayEqual [a, b] [b, a]"
proof -
  from assms(2) have "set (pr_JSAndCssFiles r) = set (JSAndCssFiles v)"
    by (rule mset_eq_setD)
  then have "isArrayEqual (pr_JSAndCssFiles r) (JSAndCssFiles v)"
    by (simp add: isArrayEqual_def)
  with assms(1,3) show ?thesis
    by (auto simp: renderMarkdown_def renderMarkdown_then_def postMessage_def isArrayEqual_def)
qed

text \<open>The stored list is \<^verbatim>\<open>[a.js, b.css]\<close> and the parse returns \<^verbatim>\<open>[b.css, a.js]\<close>.\<close>

theorem renderMarkdown_permutation_patch_witness:
  "editor (example_view\<lparr>JSAndCssFiles := [''a.js'', ''b.css'']\<rparr>) = Some example_editor
   \<and> mset [''b.css'', ''a.js''] = mset (JSAndCssFiles (example_view\<lparr>JSAndCssFiles := [''a.js'', ''b.css'']\<rparr>))
   \<and> \<not> truthy JUndefined
   \<and> renderMarkdown False
        (Resolved \<lparr>pr_html = ''<p>hi</p>'', pr_tocHTML = [], pr_JSAndCssFiles = [''b.css'', ''a.js''],
                   pr_yamlConfig = \<lparr>yaml_isPresentationMode = JUndefined, yaml_id = JUndefined,
                                    yaml_class = JString ''wide''\<rparr>\<rparr>)
        (example_view\<lparr>JSAndCssFiles := [''a.js'', ''b.css'']\<rparr>)
     = Inr (example_view\<lparr>JSAndCssFiles := [''a.js'', ''b.css''],
             effects := [PostMessage StartParsingMarkdown,
                         PostMessage (UpdateHTML ''<p>hi</p>'' [] 5 (Some ''/home/user/notes.md'')
                           (JString []) (JString ''wide''))]\<rparr>)"
  using renderMarkdown_permutation_patch[of "example_view\<lparr>JSAndCssFiles := [''a.js'', ''b.css'']\<rparr>"
      example_editor
      "\<lparr>pr_html = ''<p>hi</p>'', pr_tocHTML = [], pr_JSAndCssFiles = [''b.css'', ''a.js''],
                   pr_yamlConfig = \<lparr>yaml_isPresentationMode = JUndefined, yaml_id = JUndefined,
                                    yaml_class = JString ''wide''\<rparr>\<rparr>"]
  by (simp add: example_view_def example_editor_def js_or_def)

text \<open>
  C3 on the code.  When the promise of \<^verbatim>\<open>parseMD\<close> rejects, the stored dependency list
  is as it was, and so are the error notifications: none is added.  On the example
  session the only effect of the call is the \<^verbatim>\<open>startParsingMarkdown\<close> message sent before
  the parse.
\<close>

theorem renderMarkdown_rejected_unreported:
  "(case renderMarkdown isPreviewInPresentationMode (Rejected e) v of
      Inl err \<Rightarrow> False
    | Inr v' \<Rightarrow> error_notifications v' = error_notifications v
               \<and> JSAndCssFiles v' = JSAndCssFiles v)
   \<and> renderMarkdown False (Rejected ''Error: parse failed'') example_view
     = Inr (example_view\<lparr>effects := [PostMessage StartParsingMarkdown]\<rparr>)
   \<and> error_notifications (example_view\<lparr>effects := [PostMessage StartParsingMarkdown]\<rparr>) = []"
  by (simp add: renderMarkdown_def error_notifications_def postMessage_def example_view_def
        split: option.split)

section \<open>Properties: the engines of the process\<close>

lemma consistent_init: "engines_consistent init_process"
  by (simp add: engines_consistent_def init_process_def)

lemma initEvents_cases:
  assumes "editor v = Some ed" and "property_key (getPath ed) = k"
  shows "initEvents d (p, v) =
           (if key_in k (MARKDOWN_ENGINES_MAP p)
            then Inr (p, v\<lparr>JSAndCssFiles := [], engine := map_get (MARKDOWN_ENGINES_MAP p) k,
                           effects := effects v @ [LoadPreview]\<rparr>)
            else Inr (p\<lparr>MARKDOWN_ENGINES_MAP := (MARKDOWN_ENGINES_MAP p)(k \<mapsto> length (engines_heap p)),
                        engines_heap := engines_heap p @
                          [\<lparr>filePath = getPath ed, projectDirectoryPath = d,
                            engine_config = config v\<rparr>]\<rparr>,
                      v\<lparr>JSAndCssFiles := [], engine := EngineRef (length (engines_heap p)),
                        effects := effects v @ [LoadPreview]\<rparr>))"
  using assms by (simp add: initEvents_def Let_def)

lemma consistent_initEvents:
  assumes "engines_consistent p" and "initEvents d (p, v) = Inr (p', v')"
  shows "engines_consistent p'"
proof (cases "editor v")
  case None
  with assms(2) show ?thesis by (simp add: initEvents_def)
next
  case (Some ed)
  define k where "k = property_key (getPath ed)"
  note cases = initEvents_cases[OF Some k_def[symmetric], of d p]
  show ?thesis
  proof (cases "key_in k (MARKDOWN_ENGINES_MAP p)")
    case True
    with assms cases show ?thesis by simp
  next
    case False
    then have none: "MARKDOWN_ENGINES_MAP p k = None" by (simp add: key_in_def)
    from False assms(2) cases have p':
      "MARKDOWN_ENGINES_MAP p' = (MARKDOWN_ENGINES_MAP p)(k \<mapsto> length (engines_heap p))"
      "engines_heap p' = engines_heap p @
          [\<lparr>filePath = getPath ed, projectDirectoryPath = d, engine_config = config v\<rparr>]"
      by auto
    from assms(1) have old1: "\<And>k' r. MARKDOWN_ENGINES_MAP p k' = Some r \<Longrightarrow>
          r < length (engines_heap p) \<and> property_key (filePath (engines_heap p ! r)) = k'"
      and old2: "\<And>i. i < length (engines_heap p) \<Longrightarrow>
            MARKDOWN_ENGINES_MAP p (property_key (filePath (engines_heap p ! i))) = Some i"
      by (auto simp: engines_consistent_def)
    have new1: "r < length (engines_heap p') \<and> property_key (filePath (engines_heap p' ! r)) = k'"
      if "MARKDOWN_ENGINES_MAP p' k' = Some r" for k' r
    proof (cases "k' = k")
      case True
      with that have r: "r = length (engines_heap p)" by (simp add: p')
      show ?thesis unfolding r by (simp add: p' k_def True)
    next
      case False
      with that have "MARKDOWN_ENGINES_MAP p k' = Some r" by (simp add: p')
      from old1[OF this] show ?thesis by (simp add: p' nth_append)
    qed
    have new2: "MARKDOWN_ENGINES_MAP p' (property_key (filePath (engines_heap p' ! i))) = Some i"
      if "i < length (engines_heap p')" for i
    proof (cases "i < length (engines_heap p)")
      case True
      from old2[OF True] none have "property_key (filePath (engines_heap p ! i)) \<noteq> k" by auto
      with old2[OF True] True show ?thesis by (simp add: p' nth_append)
    next
      case False
      with that have "i = length (engines_heap p)" by (simp add: p')
      then show ?thesis by (simp add: p' k_def)
    qed
    from new1 new2 show ?thesis by (simp add: engines_consistent_def)
  qed
qed

lemma consistent_bind_all: "engines_consistent p \<Longrightarrow> engines_consistent (bind_all bs p)"
proof (induction bs arbitrary: p)
  case Nil
  then show ?case by simp
next
  case (Cons b bs)
  obtain d v where b: "b = (d, v)" by (cases b)
  show ?case
  proof (cases "initEvents d (p, v)")
    case (Inl e)
    with Cons b show ?thesis by simp
  next
    case (Inr pv)
    obtain p' v' where pv: "pv = (p', v')" by (cases pv)
    from Cons.prems Inr pv have "engines_consistent p'" by (auto intro: consistent_initEvents)
    with Cons.IH Inr pv b show ?thesis by simp
  qed
qed

lemma filter_at_most_one:
  assumes "\<And>i j. i < length xs \<Longrightarrow> j < length xs \<Longrightarrow> P (xs ! i) \<Longrightarrow> P (xs ! j) \<Longrightarrow> i = j"
  shows "length (filter P xs) \<le> 1"
  using assms
proof (induction xs)
  case Nil
  then show ?case by simp
next
  case (Cons x xs)
  have IH: "length (filter P xs) \<le> 1"
  proof (rule Cons.IH)
    fix i j assume "i < length xs" "j < length xs" "P (xs ! i)" "P (xs ! j)"
    with Cons.prems[of "Suc i" "Suc j"] show "i = j" by simp
  qed
  show ?case
  proof (cases "P x")
    case True
    have "\<not> P y" if "y \<in> set xs" for y
    proof
      assume "P y"
      from that obtain j where "j < length xs" "xs ! j = y" by (auto simp: in_set_conv_nth)
      with Cons.prems[of 0 "Suc j"] True \<open>P y\<close> show False by simp
    qed
    then have "filter P xs = []" by (simp add: filter_empty_conv)
    with True show ?thesis by simp
  next
    case False
    with IH show ?thesis by simp
  qed
qed

lemma consistent_at_most_one:
  assumes "engines_consistent p"
  shows "length (engines_for k p) \<le> 1"
  unfolding engines_for_def
proof (rule filter_at_most_one)
  fix i j
  assume i: "i < length (engines_heap p)" and j: "j < length (engines_heap p)"
    and ki: "property_key (filePath (engines_heap p ! i)) = k"
    and kj: "property_key (filePath (engines_heap p ! j)) = k"
  from assms have stored: "\<And>n. n < length (engines_heap p) \<Longrightarrow>
      MARKDOWN_ENGINES_MAP p (property_key (filePath (engines_heap p ! n))) = Some n"
    unfolding engines_consistent_def by blast
  from stored[OF i] stored[OF j] have "Some i = Some j"
    unfolding ki kj by simp
  then show "i = j" by simp
qed

text \<open>
  C5. In every process reached by a sequence of binds, at most one engine has been
  constructed for a document identity.  Two lookups in a row for the same identity, by
  the same or by different sessions, end with the same engine in both sessions, and the
  second leaves the map and the heap as the first left them.  When the identity has an
  engine stored, the first lookup returns that engine and constructs nothing; when it
  has none (and is not a property name every object inherits), the first lookup
  constructs one engine, the only one for that identity, and stores it.
\<close>

theorem one_engine_per_document:
  assumes "p = bind_all bs init_process"
    and "editor v1 = Some ed1" and "property_key (getPath ed1) = k"
    and "editor v2 = Some ed2" and "property_key (getPath ed2) = k"
  shows "length (engines_for k' p) \<le> 1
       \<and> (\<exists>p1 w1 w2.
             initEvents d1 (p, v1) = Inr (p1, w1)
           \<and> initEvents d2 (p1, v2) = Inr (p1, w2)
           \<and> engine w2 = engine w1
           \<and> (\<forall>r. MARKDOWN_ENGINES_MAP p k = Some r \<longrightarrow> p1 = p \<and> engine w1 = EngineRef r)
           \<and> (MARKDOWN_ENGINES_MAP p k = None \<and> k \<notin> set object_prototype_keys \<longrightarrow>
                 engines_for k p = []
               \<and> engines_heap p1 = engines_heap p @
                    [\<lparr>filePath = getPath ed1, projectDirectoryPath = d1,
                      engine_config = config v1\<rparr>]
               \<and> MARKDOWN_ENGINES_MAP p1 = (MARKDOWN_ENGINES_MAP p)(k \<mapsto> length (engines_heap p))
               \<and> engine w1 = EngineRef (length (engines_heap p))))"
    (is "_ \<and> (\<exists>p1 w1 w2. ?Q p1 w1 w2)")
proof -
  have cons: "engines_consistent p"
    unfolding assms(1) by (rule consistent_bind_all) (rule consistent_init)
  have one: "length (engines_for k' p) \<le> 1"
    using cons by (rule consistent_at_most_one)
  note c1 = initEvents_cases[OF assms(2,3), of d1 p]
  show ?thesis
  proof (cases "key_in k (MARKDOWN_ENGINES_MAP p)")
    case True
    let ?w1 = "v1\<lparr>JSAndCssFiles := [], engine := map_get (MARKDOWN_ENGINES_MAP p) k,
                   effects := effects v1 @ [LoadPreview]\<rparr>"
    let ?w2 = "v2\<lparr>JSAndCssFiles := [], engine := map_get (MARKDOWN_ENGINES_MAP p) k,
                   effects := effects v2 @ [LoadPreview]\<rparr>"
    have a: "initEvents d1 (p, v1) = Inr (p, ?w1)" using c1 True by simp
    have b: "initEvents d2 (p, v2) = Inr (p, ?w2)"
      using initEvents_cases[OF assms(4,5), of d2 p] True by simp
    have stored: "\<forall>r. MARKDOWN_ENGINES_MAP p k = Some r \<longrightarrow> p = p \<and> engine ?w1 = EngineRef r"
      by (simp add: map_get_def)
    have absent: "\<not> (MARKDOWN_ENGINES_MAP p k = None \<and> k \<notin> set object_prototype_keys)"
      using True by (simp add: key_in_def)
    have "?Q p ?w1 ?w2"
      using stored absent by (simp add: a b)
    then have "\<exists>p1 w1 w2. ?Q p1 w1 w2"
      by (intro exI)
    with one show ?thesis by (rule conjI)
  next
    case False
    let ?r = "length (engines_heap p)"
    let ?e = "\<lparr>filePath = getPath ed1, projectDirectoryPath = d1, engine_config = config v1\<rparr>"
    let ?p1 = "p\<lparr>MARKDOWN_ENGINES_MAP := (MARKDOWN_ENGINES_MAP p)(k \<mapsto> ?r),
                  engines_heap := engines_heap p @ [?e]\<rparr>"
    let ?w1 = "v1\<lparr>JSAndCssFiles := [], engine := EngineRef ?r,
                   effects := effects v1 @ [LoadPreview]\<rparr>"
    let ?w2 = "v2\<lparr>JSAndCssFiles := [], engine := EngineRef ?r,
                   effects := effects v2 @ [LoadPreview]\<rparr>"
    from False have none: "MARKDOWN_ENGINES_MAP p k = None" by (simp add: key_in_def)
    have a: "initEvents d1 (p, v1) = Inr (?p1, ?w1)" using c1 False by simp
    have b: "initEvents d2 (?p1, v2) = Inr (?p1, ?w2)"
      using initEvents_cases[OF assms(4,5), of d2 ?p1] by (simp add: key_in_def map_get_def)
    have no_engine: "engines_for k p = []"
    proof (rule ccontr)
      assume "engines_for k p \<noteq> []"
      then obtain e where "e \<in> set (engines_heap p)" "property_key (filePath e) = k"
        unfolding engines_for_def by (auto simp: filter_empty_conv)
      then obtain i where i: "i < length (engines_heap p)"
        "property_key (filePath (engines_heap p ! i)) = k"
        by (auto simp: in_set_conv_nth)
      from cons i(1) have "MARKDOWN_ENGINES_MAP p (property_key (filePath (engines_heap p ! i))) = Some i"
        unfolding engines_consistent_def by blast
      with none show False unfolding i(2) by simp
    qed
    have "?Q ?p1 ?w1 ?w2"
      by (simp add: a b none no_engine)
    then have "\<exists>p1 w1 w2. ?Q p1 w1 w2"
      by (intro exI)
    with one show ?thesis by (rule conjI)
  qed
qed

lemma not_inherited: "''/home/user/notes.md'' \<notin> set object_prototype_keys"
  by (simp add: object_prototype_keys_def)

lemma after_todo:
  "MARKDOWN_ENGINES_MAP (bind_all [(''/home/user'', todo_view)] init_process) ''/home/user/notes.md'' = None"
  "length (engines_heap (bind_all [(''/home/user'', todo_view)] init_process)) = 1"
  by (simp_all add: initEvents_def todo_view_def example_view_def example_editor_def
        init_process_def property_key_def key_in_def object_prototype_keys_def Let_def)

text \<open>
  In a process in which a preview of \<^verbatim>\<open>todo.md\<close> was bound first, two sessions are bound
  to \<^verbatim>\<open>notes.md\<close>: the first constructs the engine with reference 1, the second gets
  the same engine and constructs nothing.
\<close>

theorem one_engine_per_document_witness:
  "editor example_view = Some example_editor
   \<and> property_key (getPath example_editor) = ''/home/user/notes.md''
   \<and> editor (example_view\<lparr>zoomLevel := JNumber (Number 2)\<rparr>) = Some example_editor
   \<and> (\<exists>p1 w1 w2.
         initEvents ''/home/user''
           (bind_all [(''/home/user'', todo_view)] init_process, example_view) = Inr (p1, w1)
       \<and> initEvents ''/home/user'' (p1, example_view\<lparr>zoomLevel := JNumber (Number 2)\<rparr>) = Inr (p1, w2)
       \<and> engine w1 = EngineRef 1 \<and> engine w2 = EngineRef 1
       \<and> length (engines_heap p1) = 2
       \<and> MARKDOWN_ENGINES_MAP p1 ''/home/user/notes.md'' = Some 1)
   \<and> length (engines_for ''/home/user/notes.md''
         (bind_all [(''/home/user'', todo_view), (''/home/user'', example_view),
                    (''/home/user'', example_view\<lparr>zoomLevel := JNumber (Number 2)\<rparr>)] init_process)) \<le> 1"
proof -
  let ?p = "bind_all [(''/home/user'', todo_view)] init_process"
  let ?v2 = "example_view\<lparr>zoomLevel := JNumber (Number 2)\<rparr>"
  have h: "editor example_view = Some example_editor"
    "property_key (getPath example_editor) = ''/home/user/notes.md''"
    "editor ?v2 = Some example_editor"
    by (simp_all add: example_view_def example_editor_def property_key_def)
  from one_engine_per_document[OF refl h(1,2) h(3) h(2),
      where bs = "[(''/home/user'', todo_view)]" and ?d1.0 = "''/home/user''"
        and ?d2.0 = "''/home/user''", THEN conjunct2]
  obtain p1 w1 w2 where
    r: "initEvents ''/home/user'' (?p, example_view) = Inr (p1, w1)"
       "initEvents ''/home/user'' (p1, ?v2) = Inr (p1, w2)"
       "engine w2 = engine w1"
    and new: "MARKDOWN_ENGINES_MAP ?p ''/home/user/notes.md'' = None
              \<and> ''/home/user/notes.md'' \<notin> set object_prototype_keys \<longrightarrow>
                 engines_for ''/home/user/notes.md'' ?p = []
               \<and> engines_heap p1 = engines_heap ?p @
                    [\<lparr>filePath = getPath example_editor, projectDirectoryPath = ''/home/user'',
                      engine_config = config example_view\<rparr>]
               \<and> MARKDOWN_ENGINES_MAP p1 = (MARKDOWN_ENGINES_MAP ?p)(''/home/user/notes.md'' \<mapsto> length (engines_heap ?p))
               \<and> engine w1 = EngineRef (length (engines_heap ?p))"
    by blast
  from new after_todo not_inherited have
    "engines_heap p1 = engines_heap ?p @
                    [\<lparr>filePath = getPath example_editor, projectDirectoryPath = ''/home/user'',
                      engine_config = config example_view\<rparr>]"
    "MARKDOWN_ENGINES_MAP p1 = (MARKDOWN_ENGINES_MAP ?p)(''/home/user/notes.md'' \<mapsto> 1)"
    "engine w1 = EngineRef 1"
    by simp_all
  with r after_todo have ex: "\<exists>p1 w1 w2.
         initEvents ''/home/user'' (?p, example_view) = Inr (p1, w1)
       \<and> initEvents ''/home/user'' (p1, ?v2) = Inr (p1, w2)
       \<and> engine w1 = EngineRef 1 \<and> engine w2 = EngineRef 1
       \<and> length (engines_heap p1) = 2
       \<and> MARKDOWN_ENGINES_MAP p1 ''/home/user/notes.md'' = Some 1"
    by (intro exI[of _ p1] exI[of _ w1] exI[of _ w2]) simp
  have le: "length (engines_for ''/home/user/notes.md''
         (bind_all [(''/home/user'', todo_view), (''/home/user'', example_view),
                    (''/home/user'', ?v2)] init_process)) \<le> 1"
    using one_engine_per_document[OF refl h(1,2) h(3) h(2), THEN conjunct1] .
  show ?thesis
    by (intro conjI h ex le)
qed

section \<open>Properties: the scroll animation\<close>

lemma single_init: "single_animation (init_world v)"
  by (simp add: single_animation_def init_world_def)

lemma fire_no_timer: "timers w = [] \<Longrightarrow> fire clamp now h w = w"
  by (simp add: fire_def)

lemma fire_other: "timers w = [t] \<Longrightarrow> handle t \<noteq> h \<Longrightarrow> fire clamp now h w = w"
  by (simp add: fire_def)

lemma fire_last:
  assumes "timers w = [t]" and "duration t \<le> 0"
  shows "fire clamp now (handle t) w =
           w\<lparr>session := (session w)\<lparr>editorScrollDelay := now + 500\<rparr>, timers := [],
             scrollTops := (scrollTops w)(element t := clamp (target t))\<rparr>"
  using assms by (simp add: fire_def setScrollTop_def set_editorScrollDelay_def)

lemma fire_reached:
  assumes "timers w = [t]" and "0 < duration t" and "stepped w t = target t"
  shows "fire clamp now (handle t) w =
           w\<lparr>session := (session w)\<lparr>editorScrollDelay := now + 500\<rparr>, timers := [],
             scrollTops := (scrollTops w)(element t := clamp (stepped w t))\<rparr>"
  using assms
  by (simp add: fire_def setScrollTop_def set_editorScrollDelay_def stepped_def Let_def)

lemma fire_again:
  assumes "timers w = [t]" and "0 < duration t" and "stepped w t \<noteq> target t"
  shows "fire clamp now (handle t) w =
           w\<lparr>session := (session w)\<lparr>editorScrollDelay := now + 500,
                                     scrollTimeout := Some (next_handle w)\<rparr>,
             timers := [\<lparr>handle = next_handle w, duration = duration t - 10,
                         target = target t, element = element t\<rparr>],
             next_handle := Suc (next_handle w),
             scrollTops := (scrollTops w)(element t := clamp (stepped w t))\<rparr>"
  using assms
  by (simp add: fire_def setScrollTop_def set_editorScrollDelay_def stepped_def Let_def
        helper_def)

lemma single_fire:
  assumes "single_animation w"
  shows "single_animation (fire clamp now h w)"
proof (cases "timers w")
  case Nil
  with assms show ?thesis by (simp add: fire_no_timer)
next
  case (Cons t ts)
  with assms have t: "timers w = [t]" "scrollTimeout (session w) = Some (handle t)"
    "0 < handle t" "handle t < next_handle w" "duration t \<le> 120" "0 < next_handle w"
    by (auto simp: single_animation_def)
  show ?thesis
  proof (cases "handle t = h")
    case False
    with t(1) assms show ?thesis by (simp add: fire_other)
  next
    case True
    consider "duration t \<le> 0" | "0 < duration t" "stepped w t = target t"
      | "0 < duration t" "stepped w t \<noteq> target t" by linarith
    then show ?thesis
    proof cases
      case 1
      from fire_last[OF t(1) 1, of clamp now] t(6) True show ?thesis
        by (simp add: single_animation_def)
    next
      case 2
      from fire_reached[OF t(1) 2, of clamp now] t(6) True show ?thesis
        by (simp add: single_animation_def)
    next
      case 3
      from fire_again[OF t(1) 3, of clamp now] t(5,6) True show ?thesis
        by (simp add: single_animation_def)
    qed
  qed
qed

lemma scroll_starts:
  assumes "single_animation w" and "editor (session w) = Some ed" and "0 \<le> row"
  shows "scrollToBufferPosition now row w =
           w\<lparr>session := (session w)\<lparr>editorScrollDelay := now + 500,
                                     scrollTimeout := Some (next_handle w)\<rparr>,
             timers := [\<lparr>handle = next_handle w, duration = 120,
                         target = fl (fl (of_int (screenRowForBufferRow ed row) * getLineHeightInPixels ed)
                                      - fl (offsetHeight (session w) / 2)),
                         element = getElement ed\<rparr>],
             next_handle := Suc (next_handle w)\<rparr>"
proof (cases "timers w")
  case Nil
  with assms(2,3) show ?thesis
    by (simp add: scrollToBufferPosition_def set_editorScrollDelay_def clearTimeout_def
          helper_def Let_def split: option.split)
next
  case (Cons t ts)
  with assms(1) have t: "timers w = [t]" "scrollTimeout (session w) = Some (handle t)"
    "0 < handle t"
    by (auto simp: single_animation_def)
  with assms(2,3) show ?thesis
    by (simp add: scrollToBufferPosition_def set_editorScrollDelay_def clearTimeout_def
          helper_def Let_def)
qed

lemma scroll_ignored:
  "editor (session w) = None \<or> row < 0 \<Longrightarrow> scrollToBufferPosition now row w = w"
  by (auto simp: scrollToBufferPosition_def split: option.split)

lemma single_scroll:
  assumes "single_animation w"
  shows "single_animation (scrollToBufferPosition now row w)"
proof (cases "editor (session w)")
  case None
  with assms show ?thesis by (simp add: scroll_ignored)
next
  case (Some ed)
  show ?thesis
  proof (cases "row < 0")
    case True
    with assms show ?thesis by (simp add: scroll_ignored)
  next
    case False
    then have "0 \<le> row" by simp
    from scroll_starts[OF assms Some this, of now] assms show ?thesis
      by (simp add: single_animation_def)
  qed
qed

lemma single_step: "single_animation w \<Longrightarrow> single_animation (step clamp ev w)"
proof (cases ev)
  case (Reveal now row)
  assume "single_animation w"
  with Reveal show ?thesis by (simp add: single_scroll)
next
  case (Fire now h)
  assume "single_animation w"
  with Fire show ?thesis by (simp add: single_fire)
next
  case (SetEditor ed)
  assume "single_animation w"
  with SetEditor show ?thesis by (simp add: single_animation_def)
next
  case (Scrolled el x)
  assume "single_animation w"
  with Scrolled show ?thesis by (simp add: single_animation_def)
qed

lemma single_fold: "single_animation w \<Longrightarrow> single_animation (fold (step clamp) evs w)"
  by (induction evs arbitrary: w) (simp_all add: single_step)

lemma single_run: "single_animation (run clamp evs (init_world v))"
  unfolding run_def by (rule single_fold) (rule single_init)

lemma single_timers: "single_animation w \<Longrightarrow> length (timers w) \<le> 1"
  by (auto simp: single_animation_def)

lemma tick_idle: "timers w = [] \<Longrightarrow> tick clamp now w = w"
  by (simp add: tick_def)

lemma tick_fires: "timers w = [t] \<Longrightarrow> tick clamp now w = fire clamp now (handle t) w"
  by (simp add: tick_def)

lemma single_tick: "single_animation w \<Longrightarrow> single_animation (tick clamp now w)"
  by (cases "timers w") (simp_all add: tick_def single_fire)

lemma remaining_idle: "remaining w = 0 \<longleftrightarrow> timers w = []"
  by (simp add: remaining_def split: list.split)

lemma remaining_bound:
  assumes "single_animation w"
  shows "remaining w \<le> 13"
proof (cases "timers w")
  case Nil
  then show ?thesis by (simp add: remaining_def)
next
  case (Cons t ts)
  with assms have "duration t \<le> 120" by (auto simp: single_animation_def)
  then have "nat ((duration t + 9) div 10) \<le> 12" by arith
  with Cons show ?thesis by (simp add: remaining_def)
qed

lemma tick_decreases:
  assumes "single_animation w" and "timers w \<noteq> []"
  shows "remaining (tick clamp now w) < remaining w"
proof -
  from assms obtain t where t: "timers w = [t]"
    by (auto simp: single_animation_def)
  consider "duration t \<le> 0" | "0 < duration t" "stepped w t = target t"
    | "0 < duration t" "stepped w t \<noteq> target t" by linarith
  then show ?thesis
  proof cases
    case 1
    with t fire_last[OF t 1, of clamp now] show ?thesis
      by (simp add: tick_fires remaining_def)
  next
    case 2
    with t fire_reached[OF t 2, of clamp now] show ?thesis
      by (simp add: tick_fires remaining_def)
  next
    case 3
    have "nat ((duration t - 10 + 9) div 10) < nat ((duration t + 9) div 10)"
      if "0 < duration t - 10"
      using that by arith
    moreover have "0 < nat ((duration t + 9) div 10)"
      using 3(1) by arith
    ultimately show ?thesis
      using t fire_again[OF t 3, of clamp now] 3(1)
      by (simp add: tick_fires remaining_def)
  qed
qed

lemma ticks_done:
  "single_animation w \<Longrightarrow> remaining w \<le> length nows \<Longrightarrow>
   timers (fold (tick clamp) nows w) = []"
proof (induction nows arbitrary: w)
  case Nil
  then show ?case by (simp add: remaining_idle)
next
  case (Cons now nows)
  show ?case
  proof (cases "timers w = []")
    case True
    then have "tick clamp now w = w" by (rule tick_idle)
    moreover from True have "remaining w = 0" by (simp add: remaining_idle)
    ultimately show ?thesis using Cons.IH[of w] Cons.prems(1) by simp
  next
    case False
    from tick_decreases[OF Cons.prems(1) False, of clamp now] Cons.prems(2)
    have "remaining (tick clamp now w) \<le> length nows" by simp
    with Cons.IH[OF single_tick[OF Cons.prems(1)]] show ?thesis by simp
  qed
qed

text \<open>
  C9. Every animation of \<^verbatim>\<open>scrollToBufferPosition\<close> terminates: in every world a session
  can reach, thirteen timer callbacks leave no timer pending.  A callback sets the
  editor's offset to the stepped offset; when the stepped offset equals the target it
  schedules no further timer, otherwise the next timer has 10 units less.  The callback
  that finds no duration left sets the offset to the target and schedules nothing.  A
  request on a bound editor for a row that is not negative leaves exactly one pending
  timer, a new one with the full duration of 120: the timer of an animation in flight
  is cleared.  So at most one timer, hence one animation, is pending at any time.  (A
  timer is scheduled with a delay of 10; the wall clock itself is not part of the
  model.)
\<close>

theorem scroll_animation_terminates:
  assumes "w = run clamp evs (init_world v)"
  shows "length (timers w) \<le> 1
       \<and> (length nows = 13 \<longrightarrow> timers (fold (tick clamp) nows w) = [])
       \<and> (\<forall>ed. editor (session w) = Some ed \<and> 0 \<le> row \<longrightarrow>
             (\<exists>t. timers (scrollToBufferPosition now row w) = [t]
                \<and> duration t = 120
                \<and> target t = fl (fl (of_int (screenRowForBufferRow ed row) * getLineHeightInPixels ed)
                                 - fl (offsetHeight (session w) / 2))
                \<and> element t = getElement ed
                \<and> scrollTimeout (session (scrollToBufferPosition now row w)) = Some (handle t)
                \<and> handle t \<notin> handle ` set (timers w)))
       \<and> (\<forall>t. timers w = [t] \<longrightarrow>
             (duration t \<le> 0 \<longrightarrow>
                timers (tick clamp now w) = []
              \<and> scrollTops (tick clamp now w) (element t) = clamp (target t))
           \<and> (0 < duration t \<and> stepped w t = target t \<longrightarrow>
                timers (tick clamp now w) = []
              \<and> scrollTops (tick clamp now w) (element t) = clamp (stepped w t))
           \<and> (0 < duration t \<and> stepped w t \<noteq> target t \<longrightarrow>
                (\<exists>t'. timers (tick clamp now w) = [t'] \<and> duration t' = duration t - 10
                    \<and> target t' = target t \<and> element t' = element t)
              \<and> scrollTops (tick clamp now w) (element t) = clamp (stepped w t)))"
proof -
  have inv: "single_animation w"
    unfolding assms by (rule single_run)
  have one: "length (timers w) \<le> 1"
    using inv by (rule single_timers)
  have ends: "length nows = 13 \<longrightarrow> timers (fold (tick clamp) nows w) = []"
  proof
    assume "length nows = 13"
    with remaining_bound[OF inv] have "remaining w \<le> length nows" by simp
    with inv show "timers (fold (tick clamp) nows w) = []" by (rule ticks_done)
  qed
  have fresh: "handle t \<noteq> next_handle w" if "t \<in> set (timers w)" for t
    using inv that by (auto simp: single_animation_def)
  have starts: "\<forall>ed. editor (session w) = Some ed \<and> 0 \<le> row \<longrightarrow>
             (\<exists>t. timers (scrollToBufferPosition now row w) = [t]
                \<and> duration t = 120
                \<and> target t = fl (fl (of_int (screenRowForBufferRow ed row) * getLineHeightInPixels ed)
                                 - fl (offsetHeight (session w) / 2))
                \<and> element t = getElement ed
                \<and> scrollTimeout (session (scrollToBufferPosition now row w)) = Some (handle t)
                \<and> handle t \<notin> handle ` set (timers w))"
  proof (intro allI impI)
    fix ed assume a: "editor (session w) = Some ed \<and> 0 \<le> row"
    then have e: "editor (session w) = Some ed" and r: "0 \<le> row" by simp_all
    let ?t = "\<lparr>handle = next_handle w, duration = 120,
                target = fl (fl (of_int (screenRowForBufferRow ed row) * getLineHeightInPixels ed)
                             - fl (offsetHeight (session w) / 2)),
                element = getElement ed\<rparr>"
    have "handle ?t \<notin> handle ` set (timers w)"
    proof
      assume "handle ?t \<in> handle ` set (timers w)"
      then obtain x where "x \<in> set (timers w)" "handle x = next_handle w" by auto
      with fresh[of x] show False by simp
    qed
    with scroll_starts[OF inv e r, of now]
    show "\<exists>t. timers (scrollToBufferPosition now row w) = [t]
                \<and> duration t = 120
                \<and> target t = fl (fl (of_int (screenRowForBufferRow ed row) * getLineHeightInPixels ed)
                                 - fl (offsetHeight (session w) / 2))
                \<and> element t = getElement ed
                \<and> scrollTimeout (session (scrollToBufferPosition now row w)) = Some (handle t)
                \<and> handle t \<notin> handle ` set (timers w)"
      by (intro exI[of _ ?t]) simp
  qed
  have ticks: "\<forall>t. timers w = [t] \<longrightarrow>
             (duration t \<le> 0 \<longrightarrow>
                timers (tick clamp now w) = []
              \<and> scrollTops (tick clamp now w) (element t) = clamp (target t))
           \<and> (0 < duration t \<and> stepped w t = target t \<longrightarrow>
                timers (tick clamp now w) = []
              \<and> scrollTops (tick clamp now w) (element t) = clamp (stepped w t))
           \<and> (0 < duration t \<and> stepped w t \<noteq> target t \<longrightarrow>
                (\<exists>t'. timers (tick clamp now w) = [t'] \<and> duration t' = duration t - 10
                    \<and> target t' = target t \<and> element t' = element t)
              \<and> scrollTops (tick clamp now w) (element t) = clamp (stepped w t))"
  proof (intro allI impI conjI)
    fix t assume t: "timers w = [t]" and d: "duration t \<le> 0"
    from fire_last[OF t d, of clamp now]
    show "timers (tick clamp now w) = []"
      and "scrollTops (tick clamp now w) (element t) = clamp (target t)"
      by (simp_all add: tick_fires[OF t])
  next
    fix t assume t: "timers w = [t]" and d: "0 < duration t \<and> stepped w t = target t"
    then have d': "0 < duration t" "stepped w t = target t" by simp_all
    from fire_reached[OF t d', of clamp now]
    show "timers (tick clamp now w) = []"
      and "scrollTops (tick clamp now w) (element t) = clamp (stepped w t)"
      by (simp_all add: tick_fires[OF t])
  next
    fix t assume t: "timers w = [t]" and d: "0 < duration t \<and> stepped w t \<noteq> target t"
    then have d': "0 < duration t" "stepped w t \<noteq> target t" by simp_all
    let ?t' = "\<lparr>handle = next_handle w, duration = duration t - 10,
                 target = target t, element = element t\<rparr>"
    note f = fire_again[OF t d', of clamp now]
    from f have "timers (tick clamp now w) = [?t']"
      by (simp add: tick_fires[OF t])
    then show "\<exists>t'. timers (tick clamp now w) = [t'] \<and> duration t' = duration t - 10
                    \<and> target t' = target t \<and> element t' = element t"
      by (intro exI[of _ ?t']) simp
    from f show "scrollTops (tick clamp now w) (element t) = clamp (stepped w t)"
      by (simp add: tick_fires[OF t])
  qed
  show ?thesis
    by (intro conjI one ends starts ticks)
qed

text \<open>
  Evaluating the rounding on numerals.  One tenth is the double of the significand
  3602879701896397; a number halfway between two doubles goes to the even significand.
\<close>

lemma floor_rat_numeral:
  "\<lfloor>numeral a / numeral b :: rat\<rfloor> = numeral a div numeral b"
  by (metis floor_divide_of_int_eq of_int_numeral)

lemma ceiling_rat_numeral:
  "\<lceil>numeral a / numeral b :: rat\<rceil> = - (- numeral a div numeral b)"
  using ceiling_divide_eq_div[of "numeral a" "numeral b", where ?'a = rat] by simp

lemmas fl_eval = fl_def floor_log2_def round_half_even_def pow2_def bit_length.simps Let_def
  floor_rat_numeral ceiling_rat_numeral

lemma fl_examples:
  "fl (1 / 10) = 3602879701896397 / 36028797018963968"
  "fl 9007199254740993 = 9007199254740992"
  "fl 9007199254740995 = 9007199254740996"
  "fl (- 4709 / 120) = - (5522773605543663 / 140737488355328)"
  by (simp_all add: fl_eval)

lemmas world_eval = run_def init_world_def scrollToBufferPosition_def helper_def
  set_editorScrollDelay_def setScrollTop_def clearTimeout_def fire_def
  example_view_def example_editor_def

lemma scrolled_world_eval:
  "timers scrolled_world = [\<lparr>handle = 1, duration = 120, target = - 300, element = 0\<rparr>]"
  "scrollTops scrolled_world 0 = 4409"
  "next_handle scrolled_world = 2"
  "editor (session scrolled_world) = Some example_editor"
  by (simp_all add: scrolled_world_def world_eval fl_eval)

lemma centred_world_eval:
  "timers centred_world = [\<lparr>handle = 1, duration = 120, target = 0, element = 0\<rparr>]"
  "scrollTops centred_world 0 = 0"
  by (simp_all add: centred_world_def world_eval fl_eval)

text \<open>
  One callback of a timer that reschedules, on the three fields the next callback reads.
\<close>

lemma fire_steps:
  assumes "timers w = [\<lparr>handle = h, duration = d, target = tg, element = 0\<rparr>]"
    and "scrollTops w 0 = x" and "next_handle w = n" and "0 < d"
    and "fl (x + fl (fl (fl (tg - x) / of_int d) * 10)) = x'" and "x' \<noteq> tg"
  shows "timers (fire (\<lambda>x. x) now h w)
           = [\<lparr>handle = n, duration = d - 10, target = tg, element = 0\<rparr>]
       \<and> scrollTops (fire (\<lambda>x. x) now h w) 0 = x'
       \<and> next_handle (fire (\<lambda>x. x) now h w) = Suc n"
proof -
  let ?t = "\<lparr>handle = h, duration = d, target = tg, element = 0\<rparr>"
  have st: "stepped w ?t = x'"
    using assms(2,5) by (simp add: stepped_def)
  with assms(6) have ne: "stepped w ?t \<noteq> target ?t" by simp
  have pos: "0 < duration ?t" using assms(4) by simp
  from fire_again[OF assms(1) pos ne, of "\<lambda>x. x" now] assms(3) st
  show ?thesis by simp
qed

text \<open>
  The twelve callbacks from offset 4409 towards -300, in doubles: the twelfth steps to
  -300.00000000000006, one unit in the last place off the target, and schedules the
  timer with no duration left.
\<close>

lemma final_world_eval:
  "timers final_world = [\<lparr>handle = 13, duration = 0, target = - 300, element = 0\<rparr>]"
  "scrollTops final_world 0 = - (5277655813324801 / 17592186044416)"
proof -
  let ?w0 = "scrolled_world"
  have s0: "timers ?w0 = [\<lparr>handle = 1, duration = 120, target = - 300, element = 0\<rparr>]
       \<and> scrollTops ?w0 0 = 4409 \<and> next_handle ?w0 = Suc 1"
    by (simp add: scrolled_world_eval)
  let ?w1 = "fire (\<lambda>x. x) 1010 1 ?w0"
  have a1: "fl (4409 + fl (fl (fl (- 300 - 4409) / of_int 120) * 10)) = 8832560157862571 / 2199023255552"
    by (simp add: fl_eval)
  have s1: "timers ?w1 = [\<lparr>handle = 2, duration = 110, target = - 300, element = 0\<rparr>]
       \<and> scrollTops ?w1 0 = 8832560157862571 / 2199023255552 \<and> next_handle ?w1 = Suc 2"
    using fire_steps[OF s0[THEN conjunct1] s0[THEN conjunct2, THEN conjunct1]
        s0[THEN conjunct2, THEN conjunct2] _ a1, of 1010]
    by simp
  let ?w2 = "fire (\<lambda>x. x) 1020 2 ?w1"
  have a2: "fl (8832560157862571 / 2199023255552 + fl (fl (fl (- 300 - 8832560157862571 / 2199023255552) / of_int 110) * 10)) = 3984813390998187 / 1099511627776"
    by (simp add: fl_eval)
  have s2: "timers ?w2 = [\<lparr>handle = 3, duration = 100, target = - 300, element = 0\<rparr>]
       \<and> scrollTops ?w2 0 = 3984813390998187 / 1099511627776 \<and> next_handle ?w2 = Suc 3"
    using fire_steps[OF s1[THEN conjunct1] s1[THEN conjunct2, THEN conjunct1]
        s1[THEN conjunct2, THEN conjunct2] _ a2, of 1020]
    by simp
  let ?w3 = "fire (\<lambda>x. x) 1030 3 ?w2"
  have a3: "fl (3984813390998187 / 1099511627776 + fl (fl (fl (- 300 - 3984813390998187 / 1099511627776) / of_int 100) * 10)) = 7106693406130177 / 2199023255552"
    by (simp add: fl_eval)
  have s3: "timers ?w3 = [\<lparr>handle = 4, duration = 90, target = - 300, element = 0\<rparr>]
       \<and> scrollTops ?w3 0 = 7106693406130177 / 2199023255552 \<and> next_handle ?w3 = Suc 4"
    using fire_steps[OF s2[THEN conjunct1] s2[THEN conjunct2, THEN conjunct1]
        s2[THEN conjunct2, THEN conjunct2] _ a3, of 1030]
    by simp
  let ?w4 = "fire (\<lambda>x. x) 1040 4 ?w3"
  have a4: "fl (7106693406130177 / 2199023255552 + fl (fl (fl (- 300 - 7106693406130177 / 2199023255552) / of_int 90) * 10)) = 1560940007565995 / 549755813888"
    by (simp add: fl_eval)
  have s4: "timers ?w4 = [\<lparr>handle = 5, duration = 80, target = - 300, element = 0\<rparr>]
       \<and> scrollTops ?w4 0 = 1560940007565995 / 549755813888 \<and> next_handle ?w4 = Suc 5"
    using fire_steps[OF s3[THEN conjunct1] s3[THEN conjunct2, THEN conjunct1]
        s3[THEN conjunct2, THEN conjunct2] _ a4, of 1040]
    by simp
  let ?w5 = "fire (\<lambda>x. x) 1050 5 ?w4"
  have a5: "fl (1560940007565995 / 549755813888 + fl (fl (fl (- 300 - 1560940007565995 / 549755813888) / of_int 80) * 10)) = 2690413327198891 / 1099511627776"
    by (simp add: fl_eval)
  have s5: "timers ?w5 = [\<lparr>handle = 6, duration = 70, target = - 300, element = 0\<rparr>]
       \<and> scrollTops ?w5 0 = 2690413327198891 / 1099511627776 \<and> next_handle ?w5 = Suc 6"
    using fire_steps[OF s4[THEN conjunct1] s4[THEN conjunct2, THEN conjunct1]
        s4[THEN conjunct2, THEN conjunct2] _ a5, of 1050]
    by simp
  let ?w6 = "fire (\<lambda>x. x) 1060 6 ?w5"
  have a6: "fl (2690413327198891 / 1099511627776 + fl (fl (fl (- 300 - 2690413327198891 / 1099511627776) / of_int 70) * 10)) = 4109 / 2"
    by (simp add: fl_eval)
  have s6: "timers ?w6 = [\<lparr>handle = 7, duration = 60, target = - 300, element = 0\<rparr>]
       \<and> scrollTops ?w6 0 = 4109 / 2 \<and> next_handle ?w6 = Suc 7"
    using fire_steps[OF s5[THEN conjunct1] s5[THEN conjunct2, THEN conjunct1]
        s5[THEN conjunct2, THEN conjunct2] _ a6, of 1060]
    by simp
  let ?w7 = "fire (\<lambda>x. x) 1070 7 ?w6"
  have a7: "fl (4109 / 2 + fl (fl (fl (- 300 - 4109 / 2) / of_int 60) * 10)) = 7309919805330773 / 4398046511104"
    by (simp add: fl_eval)
  have s7: "timers ?w7 = [\<lparr>handle = 8, duration = 50, target = - 300, element = 0\<rparr>]
       \<and> scrollTops ?w7 0 = 7309919805330773 / 4398046511104 \<and> next_handle ?w7 = Suc 8"
    using fire_steps[OF s6[THEN conjunct1] s6[THEN conjunct2, THEN conjunct1]
        s6[THEN conjunct2, THEN conjunct2] _ a7, of 1070]
    by simp
  let ?w8 = "fire (\<lambda>x. x) 1080 8 ?w7"
  have a8: "fl (7309919805330773 / 4398046511104 + fl (fl (fl (- 300 - 7309919805330773 / 4398046511104) / of_int 50) * 10)) = 2792026526799189 / 2199023255552"
    by (simp add: fl_eval)
  have s8: "timers ?w8 = [\<lparr>handle = 9, duration = 40, target = - 300, element = 0\<rparr>]
       \<and> scrollTops ?w8 0 = 2792026526799189 / 2199023255552 \<and> next_handle ?w8 = Suc 9"
    using fire_steps[OF s7[THEN conjunct1] s7[THEN conjunct2, THEN conjunct1]
        s7[THEN conjunct2, THEN conjunct2] _ a8, of 1080]
    by simp
  let ?w9 = "fire (\<lambda>x. x) 1090 9 ?w8"
  have a9: "fl (2792026526799189 / 2199023255552 + fl (fl (fl (- 300 - 2792026526799189 / 2199023255552) / of_int 40) * 10)) = 7716372603731967 / 8796093022208"
    by (simp add: fl_eval)
  have s9: "timers ?w9 = [\<lparr>handle = 10, duration = 30, target = - 300, element = 0\<rparr>]
       \<and> scrollTops ?w9 0 = 7716372603731967 / 8796093022208 \<and> next_handle ?w9 = Suc 10"
    using fire_steps[OF s8[THEN conjunct1] s8[THEN conjunct2, THEN conjunct1]
        s8[THEN conjunct2, THEN conjunct2] _ a9, of 1090]
    by simp
  let ?w10 = "fire (\<lambda>x. x) 1100 10 ?w9"
  have a10: "fl (7716372603731967 / 8796093022208 + fl (fl (fl (- 300 - 7716372603731967 / 8796093022208) / of_int 30) * 10)) = 8529278200534355 / 17592186044416"
    by (simp add: fl_eval)
  have s10: "timers ?w10 = [\<lparr>handle = 11, duration = 20, target = - 300, element = 0\<rparr>]
       \<and> scrollTops ?w10 0 = 8529278200534355 / 17592186044416 \<and> next_handle ?w10 = Suc 11"
    using fire_steps[OF s9[THEN conjunct1] s9[THEN conjunct2, THEN conjunct1]
        s9[THEN conjunct2, THEN conjunct2] _ a10, of 1100]
    by simp
  let ?w11 = "fire (\<lambda>x. x) 1110 11 ?w10"
  have a11: "fl (8529278200534355 / 17592186044416 + fl (fl (fl (- 300 - 8529278200534355 / 17592186044416) / of_int 20) * 10)) = 1625811193604777 / 17592186044416"
    by (simp add: fl_eval)
  have s11: "timers ?w11 = [\<lparr>handle = 12, duration = 10, target = - 300, element = 0\<rparr>]
       \<and> scrollTops ?w11 0 = 1625811193604777 / 17592186044416 \<and> next_handle ?w11 = Suc 12"
    using fire_steps[OF s10[THEN conjunct1] s10[THEN conjunct2, THEN conjunct1]
        s10[THEN conjunct2, THEN conjunct2] _ a11, of 1110]
    by simp
  let ?w12 = "fire (\<lambda>x. x) 1120 12 ?w11"
  have a12: "fl (1625811193604777 / 17592186044416 + fl (fl (fl (- 300 - 1625811193604777 / 17592186044416) / of_int 10) * 10)) = - (5277655813324801 / 17592186044416)"
    by (simp add: fl_eval)
  have s12: "timers ?w12 = [\<lparr>handle = 13, duration = 0, target = - 300, element = 0\<rparr>]
       \<and> scrollTops ?w12 0 = - (5277655813324801 / 17592186044416) \<and> next_handle ?w12 = Suc 13"
    using fire_steps[OF s11[THEN conjunct1] s11[THEN conjunct2, THEN conjunct1]
        s11[THEN conjunct2, THEN conjunct2] _ a12, of 1120]
    by simp
  have w: "final_world = ?w12"
    by (simp add: final_world_def run_def)
  from s12 show "timers final_world = [\<lparr>handle = 13, duration = 0, target = - 300, element = 0\<rparr>]"
    and "scrollTops final_world 0 = - (5277655813324801 / 17592186044416)"
    unfolding w by simp_all
qed

text \<open>
  The three worlds.  From offset 4409 one timer is pending; its first callback steps
  the offset and schedules a timer with 110 units left; thirteen callbacks end the
  animation; a new request for row 10 replaces the pending timer by one with target
  -100.  After twelve callbacks the pending timer has no duration left, and the
  thirteenth callback sets the offset to the target -300.  With the editor already at
  the target 0 the first callback steps to the target and schedules nothing.
\<close>

theorem scroll_animation_terminates_witness:
  "length (timers scrolled_world) \<le> 1
   \<and> length [1010, 1020, 1030, 1040, 1050, 1060, 1070, 1080, 1090, 1100, 1110, 1120, 1130 :: int] = 13
   \<and> timers (fold (tick (\<lambda>x. x))
        [1010, 1020, 1030, 1040, 1050, 1060, 1070, 1080, 1090, 1100, 1110, 1120, 1130]
        scrolled_world) = []
   \<and> editor (session scrolled_world) = Some example_editor
   \<and> (\<exists>t. timers (scrollToBufferPosition 1010 10 scrolled_world) = [t] \<and> duration t = 120
          \<and> target t = - 100 \<and> handle t \<noteq> 1)
   \<and> timers scrolled_world = [\<lparr>handle = 1, duration = 120, target = - 300, element = 0\<rparr>]
   \<and> stepped scrolled_world \<lparr>handle = 1, duration = 120, target = - 300, element = 0\<rparr>
       = 8832560157862571 / 2199023255552
   \<and> (\<exists>t'. timers (tick (\<lambda>x. x) 1010 scrolled_world) = [t'] \<and> duration t' = 110
          \<and> target t' = - 300)
   \<and> scrollTops (tick (\<lambda>x. x) 1010 scrolled_world) 0 = 8832560157862571 / 2199023255552
   \<and> timers final_world = [\<lparr>handle = 13, duration = 0, target = - 300, element = 0\<rparr>]
   \<and> scrollTops final_world 0 = - (5277655813324801 / 17592186044416)
   \<and> timers (tick (\<lambda>x. x) 1130 final_world) = []
   \<and> scrollTops (tick (\<lambda>x. x) 1130 final_world) 0 = - 300
   \<and> timers centred_world = [\<lparr>handle = 1, duration = 120, target = 0, element = 0\<rparr>]
   \<and> stepped centred_world \<lparr>handle = 1, duration = 120, target = 0, element = 0\<rparr> = 0
   \<and> timers (tick (\<lambda>x. x) 1010 centred_world) = []
   \<and> scrollTops (tick (\<lambda>x. x) 1010 centred_world) 0 = 0"
proof -
  let ?t1 = "\<lparr>handle = 1, duration = 120, target = - 300, element = 0\<rparr> :: timer"
  let ?t13 = "\<lparr>handle = 13, duration = 0, target = - 300, element = 0\<rparr> :: timer"
  let ?tc = "\<lparr>handle = 1, duration = 120, target = 0, element = 0\<rparr> :: timer"
  let ?nows = "[1010, 1020, 1030, 1040, 1050, 1060, 1070, 1080, 1090, 1100, 1110, 1120, 1130 :: int]"
  note first = scroll_animation_terminates[OF scrolled_world_def,
      where nows = ?nows and row = 10 and now = 1010]
  have fw: "final_world = run (\<lambda>x. x)
       ([Scrolled 0 4409, Reveal 1000 0] @
        [Fire 1010 1, Fire 1020 2, Fire 1030 3, Fire 1040 4, Fire 1050 5, Fire 1060 6,
         Fire 1070 7, Fire 1080 8, Fire 1090 9, Fire 1100 10, Fire 1110 11, Fire 1120 12])
       (init_world example_view)"
    unfolding final_world_def scrolled_world_def run_def fold_append by simp
  note last = scroll_animation_terminates[OF fw, where now = 1130]
  note mid = scroll_animation_terminates[OF centred_world_def, where now = 1010]
  have len: "length ?nows = 13" by simp
  have a: "length (timers scrolled_world) \<le> 1"
    using first by (rule conjunct1)
  have b: "timers (fold (tick (\<lambda>x. x)) ?nows scrolled_world) = []"
    using first[THEN conjunct2, THEN conjunct1] len by (rule mp)
  \<comment> \<open>a new request replaces the pending timer\<close>
  from first[THEN conjunct2, THEN conjunct2, THEN conjunct1, THEN spec, of example_editor]
    scrolled_world_eval(4)
  obtain t where t: "timers (scrollToBufferPosition 1010 10 scrolled_world) = [t]"
      "duration t = 120"
      "target t = fl (fl (of_int (screenRowForBufferRow example_editor 10)
                            * getLineHeightInPixels example_editor)
                      - fl (offsetHeight (session scrolled_world) / 2))"
      "handle t \<notin> handle ` set (timers scrolled_world)"
    by auto
  have oh: "offsetHeight (session scrolled_world) = 600"
    by (simp add: scrolled_world_def world_eval fl_eval)
  from t(3) have "target t = - 100"
    by (simp add: oh example_editor_def fl_eval)
  moreover from t(4) have "handle t \<noteq> 1"
    by (simp add: scrolled_world_eval)
  ultimately have c: "\<exists>t. timers (scrollToBufferPosition 1010 10 scrolled_world) = [t]
          \<and> duration t = 120 \<and> target t = - 100 \<and> handle t \<noteq> 1"
    using t(1,2) by (intro exI[of _ t]) simp
  \<comment> \<open>the first callback steps and schedules the next\<close>
  have st1: "stepped scrolled_world ?t1 = 8832560157862571 / 2199023255552"
    by (simp add: stepped_def scrolled_world_eval fl_eval)
  have ne1: "stepped scrolled_world ?t1 \<noteq> target ?t1"
    unfolding st1 by simp
  have pos1: "0 < duration ?t1" by simp
  from pos1 ne1 have h1: "0 < duration ?t1 \<and> stepped scrolled_world ?t1 \<noteq> target ?t1"
    by (rule conjI)
  note again = first[THEN conjunct2, THEN conjunct2, THEN conjunct2, THEN spec, of ?t1,
      THEN mp, OF scrolled_world_eval(1), THEN conjunct2, THEN conjunct2, THEN mp, OF h1]
  from again[THEN conjunct1]
  have d: "\<exists>t'. timers (tick (\<lambda>x. x) 1010 scrolled_world) = [t'] \<and> duration t' = 110
          \<and> target t' = - 300"
    by auto
  from again[THEN conjunct2]
  have e: "scrollTops (tick (\<lambda>x. x) 1010 scrolled_world) 0 = 8832560157862571 / 2199023255552"
    unfolding st1 by simp
  \<comment> \<open>the thirteenth callback finds no duration left\<close>
  have le13: "duration ?t13 \<le> 0" by simp
  note fin = last[THEN conjunct2, THEN conjunct2, THEN conjunct2, THEN spec, of ?t13,
      THEN mp, OF final_world_eval(1), THEN conjunct1, THEN mp, OF le13]
  have f: "timers (tick (\<lambda>x. x) 1130 final_world) = []"
    using fin by (rule conjunct1)
  from fin[THEN conjunct2]
  have g: "scrollTops (tick (\<lambda>x. x) 1130 final_world) 0 = - 300"
    by simp
  \<comment> \<open>an editor already at the target stops at the first callback\<close>
  have stc: "stepped centred_world ?tc = 0"
    by (simp add: stepped_def centred_world_eval fl_eval)
  have hc: "0 < duration ?tc \<and> stepped centred_world ?tc = target ?tc"
    unfolding stc by simp
  note stop = mid[THEN conjunct2, THEN conjunct2, THEN conjunct2, THEN spec, of ?tc,
      THEN mp, OF centred_world_eval(1), THEN conjunct2, THEN conjunct1, THEN mp, OF hc]
  have i: "timers (tick (\<lambda>x. x) 1010 centred_world) = []"
    using stop by (rule conjunct1)
  from stop[THEN conjunct2]
  have j: "scrollTops (tick (\<lambda>x. x) 1010 centred_world) 0 = 0"
    unfolding stc by simp
  show ?thesis
    by (intro conjI a len b scrolled_world_eval(4) c scrolled_world_eval(1) st1 d e
          final_world_eval f g centred_world_eval(1) stc i j)
qed

end
